theory Spec2Isabelle
  imports Complex_Main "HOL-Library.AList" "HOL-Library.Multiset" "HOL-Library.Log_Nat"
begin

section \<open>Numbers, constants and the unit converter\<close>

text \<open>
  The program is TypeScript: every number is an IEEE 754 binary64 value. Numbers are
  values of \<^typ>\<open>real\<close>, counts and quantities of \<^typ>\<open>int\<close>, and
  \<^verbatim>\<open>Math.floor\<close> is \<^term>\<open>floor\<close>. Two readings of the arithmetic of
  \<^verbatim>\<open>PrintLayout.tsx\<close> are used. The definitions without a suffix read
  \<^verbatim>\<open>+ - * /\<close> over the exact reals; they serve the properties that do not turn on
  the last bit of a result (guards and signs, the unit slip of the cut-mark padding, the
  quantity map, the pagination of random sizes). The definitions with the suffix
  \<open>_f64\<close> are the same source lines with every operation rounded as binary64 rounds
  it; they serve the properties that fix an integer cut from a quotient: the grid that
  \<^verbatim>\<open>Math.floor\<close> yields and the pixel size of the canvas. What the first reading
  shows of the cut-mark padding, of a printable area that is not positive and of the
  quotient of two counts is shown under the second reading as well (lemmas
  \<open>packer_grid_differs_f64\<close>, \<open>nonpositive_printable_area_f64\<close> and
  \<open>floor_fdiv_int\<close>). Where the source would
  produce \<^verbatim>\<open>NaN\<close> or an infinity (a missing pixel dimension, a division by zero)
  the model returns the value \<open>NotFinite\<close> of its error type instead.
\<close>

definition DPI :: real where
  "DPI = 300"

definition A4_DIMENSIONS_MM_width :: real where
  "A4_DIMENSIONS_MM_width = 210"

definition A4_DIMENSIONS_MM_height :: real where
  "A4_DIMENSIONS_MM_height = 297"

definition MARK_THICKNESS_PX :: real where
  "MARK_THICKNESS_PX = 1"

definition MARK_LENGTH_PX :: real where
  "MARK_LENGTH_PX = 10"

definition MARK_PADDING_PX :: real where
  "MARK_PADDING_PX = 2"

text \<open>\<^verbatim>\<open>const mmToPx = (mm: number) => (mm / 25.4) * DPI;\<close>\<close>

definition mmToPx :: "real \<Rightarrow> real" where
  "mmToPx mm = (mm / 25.4) * DPI"

section \<open>IEEE 754 double precision\<close>

text \<open>
  Every JavaScript number is a binary64 value and every \<^verbatim>\<open>+ - * /\<close> rounds its exact
  result to the nearest binary64 value, ties to the even significand. \<open>fl\<close> is that
  rounding on the reals: the result has a 53-bit significand. The exponent range is not
  bounded (overflow above \<open>2^1024\<close> and gradual underflow below \<open>2^-1022\<close> are not
  modelled; the millimetre and pixel values of the program are far inside). Every
  division of the definitions below has a divisor that is not zero where it is reached.
  \<open>expo x\<close> is the exponent \<open>e\<close> with \<open>2^e \<le> |x| < 2^(e+1)\<close>.
\<close>

definition expo :: "real \<Rightarrow> int" where
  "expo x = (if 1 \<le> \<bar>x\<bar> then bitlen \<lfloor>\<bar>x\<bar>\<rfloor> - 1 else - bitlen (\<lceil>1 / \<bar>x\<bar>\<rceil> - 1))"

definition round_even :: "real \<Rightarrow> int" where
  "round_even q =
     (let f = \<lfloor>q\<rfloor>
      in if q - of_int f < 1 / 2 then f
         else if q - of_int f > 1 / 2 then f + 1
         else if even f then f else f + 1)"

definition fl :: "real \<Rightarrow> real" where
  "fl x = (if x = 0 then 0
           else of_int (round_even (x * 2 powi (52 - expo x))) * 2 powi (expo x - 52))"

definition fadd :: "real \<Rightarrow> real \<Rightarrow> real" where
  "fadd x y = fl (x + y)"

definition fsub :: "real \<Rightarrow> real \<Rightarrow> real" where
  "fsub x y = fl (x - y)"

definition fmul :: "real \<Rightarrow> real \<Rightarrow> real" where
  "fmul x y = fl (x * y)"

definition fdiv :: "real \<Rightarrow> real \<Rightarrow> real" where
  "fdiv x y = fl (x / y)"

text \<open>
  \<^verbatim>\<open>mmToPx\<close> in double precision. The literal \<^verbatim>\<open>25.4\<close> is the binary64 value
  nearest to 25.4.
\<close>

definition mmToPx_f64 :: "real \<Rightarrow> real" where
  "mmToPx_f64 mm = fmul (fdiv mm (fl 25.4)) DPI"

section \<open>Data model\<close>

record PassportSize =
  name :: string
  width_mm :: real
  height_mm :: real

record ProcessedImage =
  img_id :: string
  dataUrl :: string
  img_size :: PassportSize
  width_px :: "real option"
  height_px :: "real option"
  rotation :: "int option"

record PositionedImage = ProcessedImage +
  pos_x :: real
  pos_y :: real
  renderWidth :: real
  renderHeight :: real

record Margins =
  top_m :: real
  right_m :: real
  bottom_m :: real
  left_m :: real

record PaperDimensions =
  width :: real
  height :: real

record LayoutInfo =
  portrait :: int
  landscape :: int
  max_info :: int
  rotateForMax :: bool

text \<open>
  \<open>TypeError\<close>: a property read or a method call on \<^verbatim>\<open>null\<close>/\<^verbatim>\<open>undefined\<close>.
  \<open>NotFinite\<close>: the source computes with \<^verbatim>\<open>NaN\<close> or an infinity there.
\<close>

datatype error = TypeError | NotFinite

section \<open>Layout Calculator: \<^verbatim>\<open>calculateLayoutInfo\<close>\<close>

text \<open>The local constants of \<^verbatim>\<open>calculateLayoutInfo\<close>, in the order of the source.\<close>

definition calc_gapPx :: "bool \<Rightarrow> real" where
  "calc_gapPx noGap = mmToPx (if noGap then 0 else 2)"

definition calc_markPaddingPx :: "bool \<Rightarrow> bool \<Rightarrow> real" where
  "calc_markPaddingPx showCutMarks noGap =
     mmToPx (if showCutMarks \<and> \<not> noGap then (MARK_PADDING_PX / DPI) * 25.4 else 0)"

definition totalWidthPerImage_P :: "PassportSize \<Rightarrow> bool \<Rightarrow> bool \<Rightarrow> real" where
  "totalWidthPerImage_P photoSize showCutMarks noGap =
     mmToPx (width_mm photoSize) + calc_markPaddingPx showCutMarks noGap * 2"

definition totalHeightPerImage_P :: "PassportSize \<Rightarrow> bool \<Rightarrow> bool \<Rightarrow> real" where
  "totalHeightPerImage_P photoSize showCutMarks noGap =
     mmToPx (height_mm photoSize) + calc_markPaddingPx showCutMarks noGap * 2"

definition totalWidthPerImage_L :: "PassportSize \<Rightarrow> bool \<Rightarrow> bool \<Rightarrow> real" where
  "totalWidthPerImage_L photoSize showCutMarks noGap =
     mmToPx (height_mm photoSize) + calc_markPaddingPx showCutMarks noGap * 2"

definition totalHeightPerImage_L :: "PassportSize \<Rightarrow> bool \<Rightarrow> bool \<Rightarrow> real" where
  "totalHeightPerImage_L photoSize showCutMarks noGap =
     mmToPx (width_mm photoSize) + calc_markPaddingPx showCutMarks noGap * 2"

definition cols_P :: "real \<Rightarrow> PassportSize \<Rightarrow> bool \<Rightarrow> bool \<Rightarrow> int" where
  "cols_P printableWidthPx photoSize showCutMarks noGap =
     (if totalWidthPerImage_P photoSize showCutMarks noGap > 0
      then \<lfloor>(printableWidthPx + calc_gapPx noGap)
             / (totalWidthPerImage_P photoSize showCutMarks noGap + calc_gapPx noGap)\<rfloor>
      else 0)"

definition rows_P :: "real \<Rightarrow> PassportSize \<Rightarrow> bool \<Rightarrow> bool \<Rightarrow> int" where
  "rows_P printableHeightPx photoSize showCutMarks noGap =
     (if totalHeightPerImage_P photoSize showCutMarks noGap > 0
      then \<lfloor>(printableHeightPx + calc_gapPx noGap)
             / (totalHeightPerImage_P photoSize showCutMarks noGap + calc_gapPx noGap)\<rfloor>
      else 0)"

definition cols_L :: "real \<Rightarrow> PassportSize \<Rightarrow> bool \<Rightarrow> bool \<Rightarrow> int" where
  "cols_L printableWidthPx photoSize showCutMarks noGap =
     (if totalWidthPerImage_L photoSize showCutMarks noGap > 0
      then \<lfloor>(printableWidthPx + calc_gapPx noGap)
             / (totalWidthPerImage_L photoSize showCutMarks noGap + calc_gapPx noGap)\<rfloor>
      else 0)"

definition rows_L :: "real \<Rightarrow> PassportSize \<Rightarrow> bool \<Rightarrow> bool \<Rightarrow> int" where
  "rows_L printableHeightPx photoSize showCutMarks noGap =
     (if totalHeightPerImage_L photoSize showCutMarks noGap > 0
      then \<lfloor>(printableHeightPx + calc_gapPx noGap)
             / (totalHeightPerImage_L photoSize showCutMarks noGap + calc_gapPx noGap)\<rfloor>
      else 0)"

definition calculateLayoutInfo ::
  "real \<Rightarrow> real \<Rightarrow> PassportSize option \<Rightarrow> Margins \<Rightarrow> bool \<Rightarrow> bool \<Rightarrow> LayoutInfo" where
  "calculateLayoutInfo paperWidthMm paperHeightMm photoSize margins showCutMarks noGap =
     (case photoSize of
        None \<Rightarrow> \<lparr>portrait = 0, landscape = 0, max_info = 0, rotateForMax = False\<rparr>
      | Some ps \<Rightarrow>
          if name ps = ''Random Size''
          then \<lparr>portrait = 0, landscape = 0, max_info = 0, rotateForMax = False\<rparr>
          else
            let printableWidthMm = paperWidthMm - left_m margins - right_m margins;
                printableHeightMm = paperHeightMm - top_m margins - bottom_m margins
            in if printableWidthMm \<le> 0 \<or> printableHeightMm \<le> 0
               then \<lparr>portrait = 0, landscape = 0, max_info = 0, rotateForMax = False\<rparr>
               else
                 let printableWidthPx = mmToPx printableWidthMm;
                     printableHeightPx = mmToPx printableHeightMm;
                     portraitMax = cols_P printableWidthPx ps showCutMarks noGap
                                   * rows_P printableHeightPx ps showCutMarks noGap;
                     landscapeMax = cols_L printableWidthPx ps showCutMarks noGap
                                    * rows_L printableHeightPx ps showCutMarks noGap
                 in \<lparr>portrait = portraitMax, landscape = landscapeMax,
                     max_info = max portraitMax landscapeMax,
                     rotateForMax = (landscapeMax > portraitMax)\<rparr>)"

section \<open>Sheet Packer: \<^verbatim>\<open>imagesToPrint\<close> and \<^verbatim>\<open>paginatedLayout\<close>\<close>

text \<open>
  The quantity map \<^verbatim>\<open>Record<string, number>\<close> is an association list with distinct
  keys, in the enumeration order of \<^verbatim>\<open>Object.keys\<close>. \<^verbatim>\<open>{...quantities, [id]: v}\<close>
  is \<^term>\<open>AList.update\<close>: an existing key keeps its place, a new key goes last.
\<close>

type_synonym Quantities = "(string \<times> int) list"

text \<open>\<^verbatim>\<open>images.findIndex((img) => img.id === a)\<close>: the first position, or -1.\<close>

fun findIndex :: "string \<Rightarrow> ProcessedImage list \<Rightarrow> int" where
  "findIndex a [] = -1"
| "findIndex a (img # imgs) =
     (if img_id img = a then 0
      else (let r = findIndex a imgs in if r < 0 then -1 else r + 1))"

text \<open>\<^verbatim>\<open>quantities[id] || 0\<close>: a missing key and the value 0 both give 0.\<close>

definition quantityOf :: "Quantities \<Rightarrow> string \<Rightarrow> int" where
  "quantityOf quantities i = (case map_of quantities i of None \<Rightarrow> 0 | Some q \<Rightarrow> q)"

text \<open>
  The body of the \<^verbatim>\<open>for (const id of sortedImageIds)\<close> loop: \<^verbatim>\<open>images.find\<close>, then
  the image pushed once for every \<^verbatim>\<open>i\<close> with \<^verbatim>\<open>0 <= i < quantities[id]\<close>.
\<close>

definition expandId :: "Quantities \<Rightarrow> ProcessedImage list \<Rightarrow> string \<Rightarrow> ProcessedImage list" where
  "expandId quantities images i =
     (case find (\<lambda>img. img_id img = i) images of
        None \<Rightarrow> []
      | Some img \<Rightarrow> replicate (nat (quantityOf quantities i)) img)"

text \<open>
  \<^verbatim>\<open>Array.prototype.sort\<close> with the comparator \<^verbatim>\<open>findIndex(a) - findIndex(b)\<close> is a
  stable sort on the key \<^verbatim>\<open>findIndex\<close>: \<^term>\<open>sort_key\<close>.
\<close>

definition imagesToPrint ::
  "Quantities \<Rightarrow> ProcessedImage list \<Rightarrow> bool \<Rightarrow> ProcessedImage list" where
  "imagesToPrint quantities images isRandomSizeMode =
     (if isRandomSizeMode then images
      else
        let sortedImageIds = sort_key (\<lambda>a. findIndex a images) (map fst quantities)
        in concat (map (expandId quantities images) sortedImageIds))"

text \<open>The spread \<^verbatim>\<open>{...img, x, y, renderWidth, renderHeight}\<close>.\<close>

definition positioned :: "ProcessedImage \<Rightarrow> real \<Rightarrow> real \<Rightarrow> real \<Rightarrow> real \<Rightarrow> PositionedImage" where
  "positioned img x y w h =
     \<lparr>img_id = img_id img, dataUrl = dataUrl img, img_size = img_size img,
      width_px = width_px img, height_px = height_px img, rotation = rotation img,
      pos_x = x, pos_y = y, renderWidth = w, renderHeight = h\<rparr>"

text \<open>The printable area in pixels, as \<^verbatim>\<open>paginatedLayout\<close> computes it.\<close>

definition pack_printableWidthPx :: "PaperDimensions \<Rightarrow> Margins \<Rightarrow> real" where
  "pack_printableWidthPx paperDimensions margins =
     mmToPx (width paperDimensions - left_m margins - right_m margins)"

definition pack_printableHeightPx :: "PaperDimensions \<Rightarrow> Margins \<Rightarrow> real" where
  "pack_printableHeightPx paperDimensions margins =
     mmToPx (height paperDimensions - top_m margins - bottom_m margins)"

subsection \<open>Standard mode\<close>

text \<open>The locals of the \<^verbatim>\<open>else\<close> branch (single-page logic for standard sizes).\<close>

definition pack_gapPx :: "bool \<Rightarrow> real" where
  "pack_gapPx noGap = mmToPx (if noGap then 0 else 2)"

definition pack_markPaddingPx :: "bool \<Rightarrow> bool \<Rightarrow> real" where
  "pack_markPaddingPx showCutMarks noGap =
     mmToPx (if showCutMarks \<and> \<not> noGap then MARK_PADDING_PX else 0)"

definition photoW :: "bool \<Rightarrow> PassportSize \<Rightarrow> real" where
  "photoW rotatePhotos passportSize =
     (if rotatePhotos then height_mm passportSize else width_mm passportSize)"

definition photoH :: "bool \<Rightarrow> PassportSize \<Rightarrow> real" where
  "photoH rotatePhotos passportSize =
     (if rotatePhotos then width_mm passportSize else height_mm passportSize)"

definition totalWidth :: "bool \<Rightarrow> PassportSize \<Rightarrow> bool \<Rightarrow> bool \<Rightarrow> real" where
  "totalWidth rotatePhotos passportSize showCutMarks noGap =
     mmToPx (photoW rotatePhotos passportSize) + pack_markPaddingPx showCutMarks noGap * 2"

definition totalHeight :: "bool \<Rightarrow> PassportSize \<Rightarrow> bool \<Rightarrow> bool \<Rightarrow> real" where
  "totalHeight rotatePhotos passportSize showCutMarks noGap =
     mmToPx (photoH rotatePhotos passportSize) + pack_markPaddingPx showCutMarks noGap * 2"

definition cols :: "real \<Rightarrow> bool \<Rightarrow> PassportSize \<Rightarrow> bool \<Rightarrow> bool \<Rightarrow> int" where
  "cols printableWidthPx rotatePhotos passportSize showCutMarks noGap =
     (if totalWidth rotatePhotos passportSize showCutMarks noGap > 0
      then \<lfloor>(printableWidthPx + pack_gapPx noGap)
             / (totalWidth rotatePhotos passportSize showCutMarks noGap + pack_gapPx noGap)\<rfloor>
      else 0)"

definition rows :: "real \<Rightarrow> bool \<Rightarrow> PassportSize \<Rightarrow> bool \<Rightarrow> bool \<Rightarrow> int" where
  "rows printableHeightPx rotatePhotos passportSize showCutMarks noGap =
     (if totalHeight rotatePhotos passportSize showCutMarks noGap > 0
      then \<lfloor>(printableHeightPx + pack_gapPx noGap)
             / (totalHeight rotatePhotos passportSize showCutMarks noGap + pack_gapPx noGap)\<rfloor>
      else 0)"

definition itemsPerPage :: "real \<Rightarrow> real \<Rightarrow> bool \<Rightarrow> PassportSize \<Rightarrow> bool \<Rightarrow> bool \<Rightarrow> int" where
  "itemsPerPage printableWidthPx printableHeightPx rotatePhotos passportSize showCutMarks noGap =
     cols printableWidthPx rotatePhotos passportSize showCutMarks noGap
     * rows printableHeightPx rotatePhotos passportSize showCutMarks noGap"

text \<open>
  JavaScript's \<^verbatim>\<open>%\<close> is the remainder of the truncated division: its sign is the
  dividend's.
\<close>

definition js_rem :: "int \<Rightarrow> int \<Rightarrow> int" where
  "js_rem a b = sgn a * (\<bar>a\<bar> mod \<bar>b\<bar>)"

text \<open>One iteration of the placement loop, for the index \<open>i\<close> of \<^verbatim>\<open>imagesForPage\<close>.\<close>

definition placeStandard ::
  "int \<Rightarrow> int \<Rightarrow> real \<Rightarrow> real \<Rightarrow> real \<Rightarrow> ProcessedImage list \<Rightarrow> nat \<Rightarrow> PositionedImage" where
  "placeStandard perPage ncols tw th gapPx imagesForPage i =
     (let itemOnPageIndex = js_rem (int i) perPage;
          col = js_rem itemOnPageIndex ncols;
          row = \<lfloor>real_of_int itemOnPageIndex / real_of_int ncols\<rfloor>
      in positioned (imagesForPage ! i)
           (real_of_int col * (tw + gapPx)) (real_of_int row * (th + gapPx)) tw th)"

definition standardPages ::
  "ProcessedImage list \<Rightarrow> real \<Rightarrow> real \<Rightarrow> bool \<Rightarrow> bool \<Rightarrow> bool \<Rightarrow> PassportSize
   \<Rightarrow> PositionedImage list list" where
  "standardPages toPrint printableWidthPx printableHeightPx noGap showCutMarks rotatePhotos passportSize =
     (let gapPx = pack_gapPx noGap;
          tw = totalWidth rotatePhotos passportSize showCutMarks noGap;
          th = totalHeight rotatePhotos passportSize showCutMarks noGap;
          ncols = cols printableWidthPx rotatePhotos passportSize showCutMarks noGap;
          perPage = itemsPerPage printableWidthPx printableHeightPx rotatePhotos passportSize
                      showCutMarks noGap
      in if perPage > 0
         then (let imagesForPage = take (nat perPage) toPrint
               in [map (placeStandard perPage ncols tw th gapPx imagesForPage)
                     [0..<length imagesForPage]])
         else [[]])"

subsection \<open>Random mode\<close>

record PackState =
  pages :: "PositionedImage list list"
  pageIndex :: nat
  cursor_x :: real
  cursor_y :: real
  rowHeight :: real

text \<open>
  \<^verbatim>\<open>aspect = img.width_px! / img.height_px!\<close>, the scaled footprint, and the swap for a
  rotation of 90. A missing dimension or a zero height is \<open>None\<close> (\<^verbatim>\<open>NaN\<close> or an
  infinity in the source).
\<close>

definition scaledDims :: "real \<Rightarrow> ProcessedImage \<Rightarrow> (real \<times> real) option" where
  "scaledDims TARGET_HEIGHT_PX img =
     (case (width_px img, height_px img) of
        (Some w, Some h) \<Rightarrow>
          if h = 0 then None
          else (let aspect = w / h;
                    scaledWidth = TARGET_HEIGHT_PX * aspect;
                    scaledHeight = TARGET_HEIGHT_PX
                in if rotation img = Some 90 then Some (scaledHeight, scaledWidth)
                   else Some (scaledWidth, scaledHeight))
      | _ \<Rightarrow> None)"

text \<open>The two cursor adjustments made before an image is placed.\<close>

definition wrapRow :: "real \<Rightarrow> real \<Rightarrow> real \<Rightarrow> PackState \<Rightarrow> PackState" where
  "wrapRow printableWidthPx gapPx scaledWidth s =
     (if cursor_x s > 0 \<and> cursor_x s + scaledWidth > printableWidthPx
      then s\<lparr>cursor_x := 0, cursor_y := cursor_y s + rowHeight s + gapPx, rowHeight := 0\<rparr>
      else s)"

definition newPage :: "real \<Rightarrow> real \<Rightarrow> PackState \<Rightarrow> PackState" where
  "newPage printableHeightPx scaledHeight s =
     (if cursor_y s + scaledHeight > printableHeightPx
      then s\<lparr>pages := pages s @ [[]], pageIndex := pageIndex s + 1,
             cursor_x := 0, cursor_y := 0, rowHeight := 0\<rparr>
      else s)"

text \<open>\<^verbatim>\<open>pages[pageIndex].push(...)\<close>, then the cursor moves right.\<close>

definition placeRandom :: "real \<Rightarrow> ProcessedImage \<Rightarrow> real \<Rightarrow> real \<Rightarrow> PackState \<Rightarrow> error + PackState" where
  "placeRandom gapPx img scaledWidth scaledHeight s =
     (if pageIndex s < length (pages s)
      then Inr (s\<lparr>pages := (pages s)[pageIndex s :=
                     pages s ! pageIndex s
                     @ [positioned img (cursor_x s) (cursor_y s) scaledWidth scaledHeight]],
                  cursor_x := cursor_x s + scaledWidth + gapPx,
                  rowHeight := max (rowHeight s) scaledHeight\<rparr>)
      else Inl TypeError)"

fun randomLoop ::
  "real \<Rightarrow> real \<Rightarrow> real \<Rightarrow> real \<Rightarrow> ProcessedImage list \<Rightarrow> PackState \<Rightarrow> error + PackState" where
  "randomLoop T W H gapPx [] s = Inr s"
| "randomLoop T W H gapPx (img # imgs) s =
     (case scaledDims T img of
        None \<Rightarrow> Inl NotFinite
      | Some (scaledWidth, scaledHeight) \<Rightarrow>
          (case placeRandom gapPx img scaledWidth scaledHeight
                  (newPage H scaledHeight (wrapRow W gapPx scaledWidth s)) of
             Inl e \<Rightarrow> Inl e
           | Inr s' \<Rightarrow> randomLoop T W H gapPx imgs s'))"

definition initialPackState :: PackState where
  "initialPackState = \<lparr>pages = [[]], pageIndex = 0, cursor_x = 0, cursor_y = 0, rowHeight = 0\<rparr>"

definition TARGET_HEIGHT_PX :: "real \<Rightarrow> real \<Rightarrow> real" where
  "TARGET_HEIGHT_PX printableHeightPx randomImageScale =
     min (mmToPx 45) printableHeightPx * randomImageScale"

subsection \<open>The memoised pagination\<close>

text \<open>
  The arguments are the dependencies of the \<^verbatim>\<open>useMemo\<close>. \<^verbatim>\<open>passportSize!\<close> is read
  only in the standard branch; on \<^verbatim>\<open>null\<close> the property read throws.
\<close>

definition paginatedLayout ::
  "ProcessedImage list \<Rightarrow> PaperDimensions \<Rightarrow> Margins \<Rightarrow> bool \<Rightarrow> bool \<Rightarrow> bool \<Rightarrow> bool
   \<Rightarrow> PassportSize option \<Rightarrow> real \<Rightarrow> error + PositionedImage list list" where
  "paginatedLayout toPrint paperDimensions margins noGap isRandomSizeMode showCutMarks
       rotatePhotos passportSize randomImageScale =
     (if length toPrint = 0 then Inr []
      else
        let printableWidthPx = pack_printableWidthPx paperDimensions margins;
            printableHeightPx = pack_printableHeightPx paperDimensions margins
        in if printableWidthPx \<le> 0 \<or> printableHeightPx \<le> 0 then Inr []
           else if isRandomSizeMode
           then (case randomLoop (TARGET_HEIGHT_PX printableHeightPx randomImageScale)
                        printableWidthPx printableHeightPx (pack_gapPx noGap) toPrint
                        initialPackState of
                   Inl e \<Rightarrow> Inl e
                 | Inr s \<Rightarrow> Inr (filter (\<lambda>p. length p > 0) (pages s)))
           else (case passportSize of
                   None \<Rightarrow> Inl TypeError
                 | Some ps \<Rightarrow>
                     Inr (filter (\<lambda>p. length p > 0)
                           (standardPages toPrint printableWidthPx printableHeightPx noGap
                              showCutMarks rotatePhotos ps))))"

text \<open>The derived values of the component that feed the two computations.\<close>

definition passportSize_of :: "ProcessedImage list \<Rightarrow> PassportSize option" where
  "passportSize_of images = (if length images > 0 then Some (img_size (hd images)) else None)"

definition isRandomSizeMode_of :: "ProcessedImage list \<Rightarrow> bool" where
  "isRandomSizeMode_of images =
     (case passportSize_of images of None \<Rightarrow> False | Some ps \<Rightarrow> name ps = ''Random Size'')"

definition totalCount :: "Quantities \<Rightarrow> int" where
  "totalCount quantities = foldl (\<lambda>sum count. sum + count) 0 (map snd quantities)"

section \<open>The Layout Calculator and the standard-mode packer in double precision\<close>

text \<open>\<^verbatim>\<open>calculateLayoutInfo\<close>, line by line, every operation rounded.\<close>

definition calc_gapPx_f64 :: "bool \<Rightarrow> real" where
  "calc_gapPx_f64 noGap = mmToPx_f64 (if noGap then 0 else 2)"

definition calc_markPaddingPx_f64 :: "bool \<Rightarrow> bool \<Rightarrow> real" where
  "calc_markPaddingPx_f64 showCutMarks noGap =
     mmToPx_f64 (if showCutMarks \<and> \<not> noGap then fmul (fdiv MARK_PADDING_PX DPI) (fl 25.4) else 0)"

definition totalWidthPerImage_P_f64 :: "PassportSize \<Rightarrow> bool \<Rightarrow> bool \<Rightarrow> real" where
  "totalWidthPerImage_P_f64 photoSize showCutMarks noGap =
     fadd (mmToPx_f64 (width_mm photoSize)) (fmul (calc_markPaddingPx_f64 showCutMarks noGap) 2)"

definition totalHeightPerImage_P_f64 :: "PassportSize \<Rightarrow> bool \<Rightarrow> bool \<Rightarrow> real" where
  "totalHeightPerImage_P_f64 photoSize showCutMarks noGap =
     fadd (mmToPx_f64 (height_mm photoSize)) (fmul (calc_markPaddingPx_f64 showCutMarks noGap) 2)"

definition totalWidthPerImage_L_f64 :: "PassportSize \<Rightarrow> bool \<Rightarrow> bool \<Rightarrow> real" where
  "totalWidthPerImage_L_f64 photoSize showCutMarks noGap =
     fadd (mmToPx_f64 (height_mm photoSize)) (fmul (calc_markPaddingPx_f64 showCutMarks noGap) 2)"

definition totalHeightPerImage_L_f64 :: "PassportSize \<Rightarrow> bool \<Rightarrow> bool \<Rightarrow> real" where
  "totalHeightPerImage_L_f64 photoSize showCutMarks noGap =
     fadd (mmToPx_f64 (width_mm photoSize)) (fmul (calc_markPaddingPx_f64 showCutMarks noGap) 2)"

definition cols_P_f64 :: "real \<Rightarrow> PassportSize \<Rightarrow> bool \<Rightarrow> bool \<Rightarrow> int" where
  "cols_P_f64 printableWidthPx photoSize showCutMarks noGap =
     (if totalWidthPerImage_P_f64 photoSize showCutMarks noGap > 0
      then \<lfloor>fdiv (fadd printableWidthPx (calc_gapPx_f64 noGap))
              (fadd (totalWidthPerImage_P_f64 photoSize showCutMarks noGap) (calc_gapPx_f64 noGap))\<rfloor>
      else 0)"

definition rows_P_f64 :: "real \<Rightarrow> PassportSize \<Rightarrow> bool \<Rightarrow> bool \<Rightarrow> int" where
  "rows_P_f64 printableHeightPx photoSize showCutMarks noGap =
     (if totalHeightPerImage_P_f64 photoSize showCutMarks noGap > 0
      then \<lfloor>fdiv (fadd printableHeightPx (calc_gapPx_f64 noGap))
              (fadd (totalHeightPerImage_P_f64 photoSize showCutMarks noGap) (calc_gapPx_f64 noGap))\<rfloor>
      else 0)"

definition cols_L_f64 :: "real \<Rightarrow> PassportSize \<Rightarrow> bool \<Rightarrow> bool \<Rightarrow> int" where
  "cols_L_f64 printableWidthPx photoSize showCutMarks noGap =
     (if totalWidthPerImage_L_f64 photoSize showCutMarks noGap > 0
      then \<lfloor>fdiv (fadd printableWidthPx (calc_gapPx_f64 noGap))
              (fadd (totalWidthPerImage_L_f64 photoSize showCutMarks noGap) (calc_gapPx_f64 noGap))\<rfloor>
      else 0)"

definition rows_L_f64 :: "real \<Rightarrow> PassportSize \<Rightarrow> bool \<Rightarrow> bool \<Rightarrow> int" where
  "rows_L_f64 printableHeightPx photoSize showCutMarks noGap =
     (if totalHeightPerImage_L_f64 photoSize showCutMarks noGap > 0
      then \<lfloor>fdiv (fadd printableHeightPx (calc_gapPx_f64 noGap))
              (fadd (totalHeightPerImage_L_f64 photoSize showCutMarks noGap) (calc_gapPx_f64 noGap))\<rfloor>
      else 0)"

text \<open>
  The product of two counts, \<^verbatim>\<open>cols * rows\<close>, is a multiplication of numbers too: it
  is exact below \<open>2^53\<close>.
\<close>

definition count_mul_f64 :: "int \<Rightarrow> int \<Rightarrow> int" where
  "count_mul_f64 a b = \<lfloor>fmul (real_of_int a) (real_of_int b)\<rfloor>"

definition calculateLayoutInfo_f64 ::
  "real \<Rightarrow> real \<Rightarrow> PassportSize option \<Rightarrow> Margins \<Rightarrow> bool \<Rightarrow> bool \<Rightarrow> LayoutInfo" where
  "calculateLayoutInfo_f64 paperWidthMm paperHeightMm photoSize margins showCutMarks noGap =
     (case photoSize of
        None \<Rightarrow> \<lparr>portrait = 0, landscape = 0, max_info = 0, rotateForMax = False\<rparr>
      | Some ps \<Rightarrow>
          if name ps = ''Random Size''
          then \<lparr>portrait = 0, landscape = 0, max_info = 0, rotateForMax = False\<rparr>
          else
            let printableWidthMm = fsub (fsub paperWidthMm (left_m margins)) (right_m margins);
                printableHeightMm = fsub (fsub paperHeightMm (top_m margins)) (bottom_m margins)
            in if printableWidthMm \<le> 0 \<or> printableHeightMm \<le> 0
               then \<lparr>portrait = 0, landscape = 0, max_info = 0, rotateForMax = False\<rparr>
               else
                 let printableWidthPx = mmToPx_f64 printableWidthMm;
                     printableHeightPx = mmToPx_f64 printableHeightMm;
                     portraitMax = count_mul_f64 (cols_P_f64 printableWidthPx ps showCutMarks noGap)
                                     (rows_P_f64 printableHeightPx ps showCutMarks noGap);
                     landscapeMax = count_mul_f64 (cols_L_f64 printableWidthPx ps showCutMarks noGap)
                                      (rows_L_f64 printableHeightPx ps showCutMarks noGap)
                 in \<lparr>portrait = portraitMax, landscape = landscapeMax,
                     max_info = max portraitMax landscapeMax,
                     rotateForMax = (landscapeMax > portraitMax)\<rparr>)"

text \<open>The standard-mode path of \<^verbatim>\<open>paginatedLayout\<close>, line by line, every operation rounded.\<close>

definition pack_printableWidthPx_f64 :: "PaperDimensions \<Rightarrow> Margins \<Rightarrow> real" where
  "pack_printableWidthPx_f64 paperDimensions margins =
     mmToPx_f64 (fsub (fsub (width paperDimensions) (left_m margins)) (right_m margins))"

definition pack_printableHeightPx_f64 :: "PaperDimensions \<Rightarrow> Margins \<Rightarrow> real" where
  "pack_printableHeightPx_f64 paperDimensions margins =
     mmToPx_f64 (fsub (fsub (height paperDimensions) (top_m margins)) (bottom_m margins))"

definition pack_gapPx_f64 :: "bool \<Rightarrow> real" where
  "pack_gapPx_f64 noGap = mmToPx_f64 (if noGap then 0 else 2)"

definition pack_markPaddingPx_f64 :: "bool \<Rightarrow> bool \<Rightarrow> real" where
  "pack_markPaddingPx_f64 showCutMarks noGap =
     mmToPx_f64 (if showCutMarks \<and> \<not> noGap then MARK_PADDING_PX else 0)"

definition totalWidth_f64 :: "bool \<Rightarrow> PassportSize \<Rightarrow> bool \<Rightarrow> bool \<Rightarrow> real" where
  "totalWidth_f64 rotatePhotos passportSize showCutMarks noGap =
     fadd (mmToPx_f64 (photoW rotatePhotos passportSize))
       (fmul (pack_markPaddingPx_f64 showCutMarks noGap) 2)"

definition totalHeight_f64 :: "bool \<Rightarrow> PassportSize \<Rightarrow> bool \<Rightarrow> bool \<Rightarrow> real" where
  "totalHeight_f64 rotatePhotos passportSize showCutMarks noGap =
     fadd (mmToPx_f64 (photoH rotatePhotos passportSize))
       (fmul (pack_markPaddingPx_f64 showCutMarks noGap) 2)"

definition cols_f64 :: "real \<Rightarrow> bool \<Rightarrow> PassportSize \<Rightarrow> bool \<Rightarrow> bool \<Rightarrow> int" where
  "cols_f64 printableWidthPx rotatePhotos passportSize showCutMarks noGap =
     (if totalWidth_f64 rotatePhotos passportSize showCutMarks noGap > 0
      then \<lfloor>fdiv (fadd printableWidthPx (pack_gapPx_f64 noGap))
              (fadd (totalWidth_f64 rotatePhotos passportSize showCutMarks noGap)
                 (pack_gapPx_f64 noGap))\<rfloor>
      else 0)"

definition rows_f64 :: "real \<Rightarrow> bool \<Rightarrow> PassportSize \<Rightarrow> bool \<Rightarrow> bool \<Rightarrow> int" where
  "rows_f64 printableHeightPx rotatePhotos passportSize showCutMarks noGap =
     (if totalHeight_f64 rotatePhotos passportSize showCutMarks noGap > 0
      then \<lfloor>fdiv (fadd printableHeightPx (pack_gapPx_f64 noGap))
              (fadd (totalHeight_f64 rotatePhotos passportSize showCutMarks noGap)
                 (pack_gapPx_f64 noGap))\<rfloor>
      else 0)"

definition itemsPerPage_f64 ::
  "real \<Rightarrow> real \<Rightarrow> bool \<Rightarrow> PassportSize \<Rightarrow> bool \<Rightarrow> bool \<Rightarrow> int" where
  "itemsPerPage_f64 printableWidthPx printableHeightPx rotatePhotos passportSize showCutMarks noGap =
     count_mul_f64 (cols_f64 printableWidthPx rotatePhotos passportSize showCutMarks noGap)
       (rows_f64 printableHeightPx rotatePhotos passportSize showCutMarks noGap)"

definition placeStandard_f64 ::
  "int \<Rightarrow> int \<Rightarrow> real \<Rightarrow> real \<Rightarrow> real \<Rightarrow> ProcessedImage list \<Rightarrow> nat \<Rightarrow> PositionedImage" where
  "placeStandard_f64 perPage ncols tw th gapPx imagesForPage i =
     (let itemOnPageIndex = js_rem (int i) perPage;
          col = js_rem itemOnPageIndex ncols;
          row = \<lfloor>fdiv (real_of_int itemOnPageIndex) (real_of_int ncols)\<rfloor>
      in positioned (imagesForPage ! i)
           (fmul (real_of_int col) (fadd tw gapPx)) (fmul (real_of_int row) (fadd th gapPx)) tw th)"

definition standardPages_f64 ::
  "ProcessedImage list \<Rightarrow> real \<Rightarrow> real \<Rightarrow> bool \<Rightarrow> bool \<Rightarrow> bool \<Rightarrow> PassportSize
   \<Rightarrow> PositionedImage list list" where
  "standardPages_f64 toPrint printableWidthPx printableHeightPx noGap showCutMarks rotatePhotos
       passportSize =
     (let gapPx = pack_gapPx_f64 noGap;
          tw = totalWidth_f64 rotatePhotos passportSize showCutMarks noGap;
          th = totalHeight_f64 rotatePhotos passportSize showCutMarks noGap;
          ncols = cols_f64 printableWidthPx rotatePhotos passportSize showCutMarks noGap;
          perPage = itemsPerPage_f64 printableWidthPx printableHeightPx rotatePhotos passportSize
                      showCutMarks noGap
      in if perPage > 0
         then (let imagesForPage = take (nat perPage) toPrint
               in [map (placeStandard_f64 perPage ncols tw th gapPx imagesForPage)
                     [0..<length imagesForPage]])
         else [[]])"

text \<open>
  \<^verbatim>\<open>paginatedLayout\<close> with \<^verbatim>\<open>isRandomSizeMode\<close> false: the two guards, then the
  single-page branch, then the filter of empty pages.
\<close>

definition paginatedLayout_standard_f64 ::
  "ProcessedImage list \<Rightarrow> PaperDimensions \<Rightarrow> Margins \<Rightarrow> bool \<Rightarrow> bool \<Rightarrow> bool
   \<Rightarrow> PassportSize option \<Rightarrow> error + PositionedImage list list" where
  "paginatedLayout_standard_f64 toPrint paperDimensions margins noGap showCutMarks rotatePhotos
       passportSize =
     (if length toPrint = 0 then Inr []
      else
        let printableWidthPx = pack_printableWidthPx_f64 paperDimensions margins;
            printableHeightPx = pack_printableHeightPx_f64 paperDimensions margins
        in if printableWidthPx \<le> 0 \<or> printableHeightPx \<le> 0 then Inr []
           else (case passportSize of
                   None \<Rightarrow> Inl TypeError
                 | Some ps \<Rightarrow>
                     Inr (filter (\<lambda>p. length p > 0)
                           (standardPages_f64 toPrint printableWidthPx printableHeightPx noGap
                              showCutMarks rotatePhotos ps))))"

section \<open>Quantities: the recomputation effect, the clamping handler, fill page\<close>

text \<open>
  The loop body \<^verbatim>\<open>newQuantities[image.id] = baseCount + (remainder-- > 0 ? 1 : 0)\<close>:
  the remainder is tested, then decremented, once per image.
\<close>

fun distribute :: "int \<Rightarrow> int \<Rightarrow> ProcessedImage list \<Rightarrow> Quantities \<Rightarrow> Quantities" where
  "distribute baseCount remainder [] newQuantities = newQuantities"
| "distribute baseCount remainder (img # imgs) newQuantities =
     distribute baseCount (remainder - 1) imgs
       (AList.update (img_id img) (baseCount + (if remainder > 0 then 1 else 0)) newQuantities)"

text \<open>
  The effect with dependencies \<^verbatim>\<open>[images, maxPhotos, isRandomSizeMode]\<close>. Its result
  replaces the quantity map; in random mode it returns before \<^verbatim>\<open>setQuantities\<close> and the
  map stays as it is.
\<close>

definition quantitiesEffect ::
  "bool \<Rightarrow> ProcessedImage list \<Rightarrow> int \<Rightarrow> Quantities \<Rightarrow> Quantities" where
  "quantitiesEffect isRandomSizeMode images maxPhotos quantities =
     (if isRandomSizeMode then quantities
      else if length images > 0 \<and> maxPhotos > 0
      then distribute \<lfloor>real_of_int maxPhotos / real (length images)\<rfloor>
             (js_rem maxPhotos (int (length images))) images []
      else [])"

definition handleQuantityChange ::
  "bool \<Rightarrow> int \<Rightarrow> Quantities \<Rightarrow> string \<Rightarrow> int \<Rightarrow> Quantities" where
  "handleQuantityChange isRandomSizeMode maxPhotos quantities i v =
     (if isRandomSizeMode then AList.update i v quantities
      else
        let currentTotalWithoutThisImage =
              foldl (\<lambda>sum (k, count). sum + count) 0 (filter (\<lambda>(k, count). k \<noteq> i) quantities);
            maxForThisImage = maxPhotos - currentTotalWithoutThisImage;
            newValue = min v maxForThisImage
        in if newValue \<ge> 0 then AList.update i newValue quantities else quantities)"

datatype Orientation = Portrait | Landscape

text \<open>
  \<^verbatim>\<open>handleFillPage\<close>: \<open>None\<close> is the early return that changes nothing; otherwise the
  new paper orientation, the new \<^verbatim>\<open>rotatePhotos\<close> and the new quantity map.
\<close>

definition handleFillPage ::
  "ProcessedImage list \<Rightarrow> PaperDimensions \<Rightarrow> Margins \<Rightarrow> bool \<Rightarrow> bool
   \<Rightarrow> (Orientation \<times> bool \<times> Quantities) option" where
  "handleFillPage images baseDims margins showCutMarks noGap =
     (if length images = 0 \<or> passportSize_of images = None \<or> isRandomSizeMode_of images then None
      else
        let pResult = calculateLayoutInfo (width baseDims) (height baseDims)
                        (passportSize_of images) margins showCutMarks noGap;
            lResult = calculateLayoutInfo (height baseDims) (width baseDims)
                        (passportSize_of images) margins showCutMarks noGap;
            maxForFill = (if max_info lResult > max_info pResult
                          then max_info lResult else max_info pResult);
            orientation = (if max_info lResult > max_info pResult then Landscape else Portrait);
            rot = (if max_info lResult > max_info pResult
                   then rotateForMax lResult else rotateForMax pResult)
        in if maxForFill \<le> 0
           then Some (orientation, rot,
                      foldl (\<lambda>acc img. AList.update (img_id img) 0 acc) [] images)
           else Some (orientation, rot,
                      distribute \<lfloor>real_of_int maxForFill / real (length images)\<rfloor>
                        (js_rem maxForFill (int (length images))) images []))"

subsection \<open>The component state that the quantity invariant is about\<close>

record Config =
  cfg_images :: "ProcessedImage list"
  cfg_paperDimensions :: PaperDimensions
  cfg_margins :: Margins
  cfg_showCutMarks :: bool
  cfg_noGap :: bool

definition maxPhotos_of :: "Config \<Rightarrow> int" where
  "maxPhotos_of c =
     max_info (calculateLayoutInfo (width (cfg_paperDimensions c)) (height (cfg_paperDimensions c))
                 (passportSize_of (cfg_images c)) (cfg_margins c)
                 (cfg_showCutMarks c) (cfg_noGap c))"

text \<open>
  \<open>QuantityChange\<close>: the slider of an image calls \<^verbatim>\<open>handleQuantityChange\<close>.
  \<open>Reconfigure c fresh\<close>: the images, paper, margins or flags become \<open>c\<close>; \<open>fresh\<close>
  says that \<^verbatim>\<open>images\<close> is a new array (React compares dependencies by identity), so
  the effect runs although the contents are equal.
\<close>

datatype QEvent = QuantityChange string int | Reconfigure Config bool

fun qstep :: "QEvent \<Rightarrow> Config \<times> Quantities \<Rightarrow> Config \<times> Quantities" where
  "qstep (QuantityChange i v) (c, q) =
     (c, handleQuantityChange (isRandomSizeMode_of (cfg_images c)) (maxPhotos_of c) q i v)"
| "qstep (Reconfigure c' fresh) (c, q) =
     (if fresh \<or> cfg_images c' \<noteq> cfg_images c \<or> maxPhotos_of c' \<noteq> maxPhotos_of c
         \<or> isRandomSizeMode_of (cfg_images c') \<noteq> isRandomSizeMode_of (cfg_images c)
      then (c', quantitiesEffect (isRandomSizeMode_of (cfg_images c')) (cfg_images c')
                  (maxPhotos_of c') q)
      else (c', q))"

text \<open>The state after mounting: the map starts as \<^verbatim>\<open>{}\<close> and the effect runs once.\<close>

definition qinit :: "Config \<Rightarrow> Config \<times> Quantities" where
  "qinit c = (c, quantitiesEffect (isRandomSizeMode_of (cfg_images c)) (cfg_images c)
                   (maxPhotos_of c) [])"

definition qrun :: "QEvent list \<Rightarrow> Config \<Rightarrow> Config \<times> Quantities" where
  "qrun es c = foldl (\<lambda>s e. qstep e s) (qinit c) es"

section \<open>Page navigation\<close>

record NavState =
  currentPage :: int
  pageCount :: nat
  nav_isRandomSizeMode :: bool

text \<open>The effect with dependencies \<^verbatim>\<open>[currentPage, paginatedLayout.length]\<close>.\<close>

definition currentPageEffect :: "NavState \<Rightarrow> NavState" where
  "currentPageEffect s =
     (if currentPage s > int (pageCount s) \<and> pageCount s > 0
      then s\<lparr>currentPage := int (pageCount s)\<rparr>
      else if pageCount s = 0 \<and> currentPage s \<noteq> 1
      then s\<lparr>currentPage := 1\<rparr>
      else s)"

text \<open>
  \<open>Prev\<close> and \<open>Next\<close> are the two buttons, rendered only when
  \<^verbatim>\<open>isRandomSizeMode && paginatedLayout.length > 1\<close>. \<open>Repaginate\<close> is a recomputation
  of \<^verbatim>\<open>paginatedLayout\<close> that yields the given mode and number of pages.
\<close>

datatype NavEvent = Prev | Next | Repaginate bool nat

fun navEvent :: "NavEvent \<Rightarrow> NavState \<Rightarrow> NavState" where
  "navEvent Prev s =
     (if nav_isRandomSizeMode s \<and> pageCount s > 1
      then s\<lparr>currentPage := max 1 (currentPage s - 1)\<rparr> else s)"
| "navEvent Next s =
     (if nav_isRandomSizeMode s \<and> pageCount s > 1
      then s\<lparr>currentPage := min (int (pageCount s)) (currentPage s + 1)\<rparr> else s)"
| "navEvent (Repaginate r n) s = s\<lparr>pageCount := n, nav_isRandomSizeMode := r\<rparr>"

definition navStep :: "NavEvent \<Rightarrow> NavState \<Rightarrow> NavState" where
  "navStep e s = currentPageEffect (navEvent e s)"

text \<open>\<^verbatim>\<open>useState(1)\<close>, then the effect after the first render.\<close>

definition navInit :: "bool \<Rightarrow> nat \<Rightarrow> NavState" where
  "navInit r n = currentPageEffect \<lparr>currentPage = 1, pageCount = n, nav_isRandomSizeMode = r\<rparr>"

definition navRun :: "NavEvent list \<Rightarrow> NavState \<Rightarrow> NavState" where
  "navRun es s = foldl (\<lambda>s e. navStep e s) s es"

section \<open>Sheet Renderer\<close>

text \<open>
  A promise that settles is \<open>Returns\<close> (fulfilled) or \<open>Throws\<close> (rejected with an
  \<^verbatim>\<open>Error\<close> of that message).
\<close>

datatype 'a outcome = Returns 'a | Throws string

text \<open>
  What is drawn: the calls on the 2D context, in order. A stroke is the list of its
  sub-paths.
\<close>

datatype draw_op =
    FillRect real real real real
  | DrawImage string real real real real
  | DrawImageRotated string real real real real real real
  | Stroke "(real \<times> real) list list"

text \<open>
  The canvas: its pixel size, \<^verbatim>\<open>canvas.width\<close> and \<^verbatim>\<open>canvas.height\<close>, and
  what was drawn on it. The two attributes are of the DOM type \<^verbatim>\<open>unsigned long\<close>: an
  assignment converts the number, dropping its fraction (towards zero) and reducing it
  modulo \<open>2^32\<close>, and a value above \<open>2147483647\<close> sets the attribute's default.
\<close>

record Canvas =
  canvas_width :: int
  canvas_height :: int
  canvas_ops :: "draw_op list"

definition toUnsignedLong :: "real \<Rightarrow> int" where
  "toUnsignedLong x = (if x < 0 then - \<lfloor>- x\<rfloor> else \<lfloor>x\<rfloor>) mod 2 ^ 32"

definition setCanvasDimension :: "int \<Rightarrow> real \<Rightarrow> int" where
  "setCanvasDimension dflt x =
     (let n = toUnsignedLong x in if n \<le> 2147483647 then n else dflt)"

record SheetProps =
  sp_page :: "PositionedImage list"
  sp_showCutMarks :: bool
  sp_paperDimensions :: PaperDimensions
  sp_margins :: Margins
  sp_noGap :: bool

text \<open>
  The browser: whether \<^verbatim>\<open>getContext("2d")\<close> gives a context, which data URLs
  decode (\<^verbatim>\<open>onload\<close> fires) rather than fail (\<^verbatim>\<open>onerror\<close> fires), and the
  order in which the load and error events of a page's images fire (a rearrangement of the
  page).
\<close>

record Browser =
  contextAvailable :: bool
  decodes :: "string \<Rightarrow> bool"
  settleOrder :: "PositionedImage list \<Rightarrow> PositionedImage list"

definition isRandomSizePage :: "PositionedImage list \<Rightarrow> bool" where
  "isRandomSizePage pg = (length pg > 0 \<and> name (img_size (hd pg)) = ''Random Size'')"

text \<open>One iteration of the drawing loop.\<close>

definition drawInstance ::
  "bool \<Rightarrow> bool \<Rightarrow> bool \<Rightarrow> real \<Rightarrow> real \<Rightarrow> real \<Rightarrow> PositionedImage \<Rightarrow> draw_op list" where
  "drawInstance showCutMarks noGap isRandomSizeMode marginX marginY markPaddingPx imgData =
     (let imgContainerX = fadd marginX (pos_x imgData);
          imgContainerY = fadd marginY (pos_y imgData);
          imgWidthPx = (if isRandomSizeMode
                        then fsub (renderWidth imgData) (fmul markPaddingPx 2)
                        else mmToPx_f64 (width_mm (img_size imgData)));
          imgHeightPx = (if isRandomSizeMode
                         then fsub (renderHeight imgData) (fmul markPaddingPx 2)
                         else mmToPx_f64 (height_mm (img_size imgData)));
          destX = fadd imgContainerX (fdiv (fsub (renderWidth imgData) imgWidthPx) 2);
          destY = fadd imgContainerY (fdiv (fsub (renderHeight imgData) imgHeightPx) 2);
          rw = renderWidth imgData;
          rh = renderHeight imgData;
          L = MARK_LENGTH_PX
      in (if rotation imgData = Some 90
          then [DrawImageRotated (img_id imgData)
                  (fadd destX (fdiv imgWidthPx 2)) (fadd destY (fdiv imgHeightPx 2))
                  (fdiv (- imgHeightPx) 2) (fdiv (- imgWidthPx) 2) imgHeightPx imgWidthPx]
          else [DrawImage (img_id imgData) destX destY imgWidthPx imgHeightPx])
         @ (if showCutMarks \<and> \<not> isRandomSizeMode
            then (if noGap
                  then [Stroke
                         [[(imgContainerX, fadd imgContainerY L), (imgContainerX, imgContainerY),
                           (fadd imgContainerX L, imgContainerY)],
                          [(fsub (fadd imgContainerX rw) L, imgContainerY),
                           (fadd imgContainerX rw, imgContainerY),
                           (fadd imgContainerX rw, fadd imgContainerY L)],
                          [(imgContainerX, fsub (fadd imgContainerY rh) L),
                           (imgContainerX, fadd imgContainerY rh),
                           (fadd imgContainerX L, fadd imgContainerY rh)],
                          [(fsub (fadd imgContainerX rw) L, fadd imgContainerY rh),
                           (fadd imgContainerX rw, fadd imgContainerY rh),
                           (fadd imgContainerX rw, fsub (fadd imgContainerY rh) L)]]]
                  else [Stroke
                         [[(destX, fadd destY L), (destX, destY), (fadd destX L, destY)],
                          [(fsub (fadd destX imgWidthPx) L, destY),
                           (fadd destX imgWidthPx, destY),
                           (fadd destX imgWidthPx, fadd destY L)],
                          [(destX, fsub (fadd destY imgHeightPx) L),
                           (destX, fadd destY imgHeightPx),
                           (fadd destX L, fadd destY imgHeightPx)],
                          [(fsub (fadd destX imgWidthPx) L, fadd destY imgHeightPx),
                           (fadd destX imgWidthPx, fadd destY imgHeightPx),
                           (fadd destX imgWidthPx, fsub (fadd destY imgHeightPx) L)]]])
            else []))"

text \<open>
  \<^verbatim>\<open>renderSheetDirectlyToCanvas\<close>, in double precision. \<^verbatim>\<open>canvas.width = paperWidthPx\<close>
  hands the unrounded number to the canvas, which keeps its integer part (the defaults of a
  canvas are 300 by 150); \<^verbatim>\<open>fillRect\<close> receives the unrounded number. \<^verbatim>\<open>Promise.all\<close>
  rejects with the reason of the load that rejects first, the first failing image in the
  browser's settle order, and fulfils when every load does.
\<close>

definition renderSheetDirectlyToCanvas :: "Browser \<Rightarrow> SheetProps \<Rightarrow> Canvas outcome" where
  "renderSheetDirectlyToCanvas browser props =
     (let paperWidthPx = mmToPx_f64 (width (sp_paperDimensions props));
          paperHeightPx = mmToPx_f64 (height (sp_paperDimensions props))
      in if \<not> contextAvailable browser then Throws ''Failed to get 2D context from canvas.''
         else
           (case find (\<lambda>img. \<not> decodes browser (dataUrl img))
                   (settleOrder browser (sp_page props)) of
              Some img \<Rightarrow> Throws (''Failed to load image: '' @ img_id img)
            | None \<Rightarrow>
                let marginX = mmToPx_f64 (left_m (sp_margins props));
                    marginY = mmToPx_f64 (top_m (sp_margins props));
                    isRandomSizeMode = isRandomSizePage (sp_page props);
                    markPaddingPx = mmToPx_f64 (if sp_showCutMarks props \<and> \<not> sp_noGap props
                                                then MARK_PADDING_PX else 0)
                in Returns \<lparr>canvas_width = setCanvasDimension 300 paperWidthPx,
                     canvas_height = setCanvasDimension 150 paperHeightPx,
                     canvas_ops =
                       FillRect 0 0 paperWidthPx paperHeightPx
                       # concat (map (drawInstance (sp_showCutMarks props) (sp_noGap props)
                                        isRandomSizeMode marginX marginY markPaddingPx)
                                   (sp_page props))\<rparr>))"

text \<open>
  \<^verbatim>\<open>renderPageToCanvas\<close>. The fallback \<^verbatim>\<open>renderSheetWithHtml2Canvas\<close> runs React and
  the \<^verbatim>\<open>html2canvas\<close> library, which are not part of the repository: its outcome on
  the sheet is the parameter \<open>renderSheetWithHtml2Canvas\<close>.
\<close>

definition renderPageToCanvas ::
  "Browser \<Rightarrow> (SheetProps \<Rightarrow> Canvas outcome) \<Rightarrow> SheetProps \<Rightarrow> Canvas outcome" where
  "renderPageToCanvas browser renderSheetWithHtml2Canvas sheetProps =
     (case renderSheetDirectlyToCanvas browser sheetProps of
        Returns c \<Rightarrow> Returns c
      | Throws e \<Rightarrow>
          (case renderSheetWithHtml2Canvas sheetProps of
             Returns c \<Rightarrow> Returns c
           | Throws fallbackError \<Rightarrow>
               Throws ''Failed to render page due to memory constraints. Try reducing image count or quality.''))"

section \<open>Predicates used in the proofs\<close>

text \<open>
  What every reachable state of the quantity map satisfies: the keys are distinct (it is a
  JavaScript object), and in standard mode no count is negative and the counts sum to at
  most the capacity.
\<close>

definition quantities_ok :: "Config \<times> Quantities \<Rightarrow> bool" where
  "quantities_ok s =
     (distinct (map fst (snd s))
      \<and> (isRandomSizeMode_of (cfg_images (fst s))
         \<or> (list_all (\<lambda>p. 0 \<le> snd p) (snd s) \<and> totalCount (snd s) \<le> maxPhotos_of (fst s))))"

text \<open>
  The range of the current page: within \<open>[1, pageCount]\<close> when there is a page, and 1
  in the empty state.
\<close>

definition page_in_range :: "NavState \<Rightarrow> bool" where
  "page_in_range s =
     (if pageCount s = 0 then currentPage s = 1
      else 1 \<le> currentPage s \<and> currentPage s \<le> int (pageCount s))"




section \<open>Example inputs\<close>

definition india_passport :: PassportSize where
  "india_passport = \<lparr>name = ''India Passport (35x45 mm)'', width_mm = 35, height_mm = 45\<rparr>"

definition margins10 :: Margins where
  "margins10 = \<lparr>top_m = 10, right_m = 10, bottom_m = 10, left_m = 10\<rparr>"

definition a4_paper :: PaperDimensions where
  "a4_paper = \<lparr>width = A4_DIMENSIONS_MM_width, height = A4_DIMENSIONS_MM_height\<rparr>"

definition photo_a :: ProcessedImage where
  "photo_a = \<lparr>img_id = ''1700000000001'', dataUrl = ''data:a'', img_size = india_passport,
              width_px = None, height_px = None, rotation = Some 0\<rparr>"

definition photo_b :: ProcessedImage where
  "photo_b = \<lparr>img_id = ''1700000000002'', dataUrl = ''data:b'', img_size = india_passport,
              width_px = None, height_px = None, rotation = Some 0\<rparr>"

definition good_browser :: Browser where
  "good_browser = \<lparr>contextAvailable = True, decodes = (\<lambda>u. True), settleOrder = rev\<rparr>"

definition empty_sheet :: SheetProps where
  "empty_sheet = \<lparr>sp_page = [], sp_showCutMarks = False, sp_paperDimensions = a4_paper,
                  sp_margins = margins10, sp_noGap = False\<rparr>"

definition blank_a4 :: Canvas where
  "blank_a4 = \<lparr>canvas_width = 2480, canvas_height = 3507,
               canvas_ops = [FillRect 0 0 (mmToPx_f64 210) (mmToPx_f64 297)]\<rparr>"

definition narrow_margins :: Margins where
  "narrow_margins = \<lparr>top_m = 10, right_m = 110, bottom_m = 10, left_m = 110\<rparr>"

definition two_photos_a4 :: Config where
  "two_photos_a4 = \<lparr>cfg_images = [photo_a, photo_b], cfg_paperDimensions = a4_paper,
                    cfg_margins = margins10, cfg_showCutMarks = False, cfg_noGap = False\<rparr>"

definition broken_browser :: Browser where
  "broken_browser = \<lparr>contextAvailable = True, decodes = (\<lambda>u. False), settleOrder = rev\<rparr>"

definition one_photo_sheet :: SheetProps where
  "one_photo_sheet =
     \<lparr>sp_page = [positioned photo_a 0 0 (mmToPx_f64 35) (mmToPx_f64 45)], sp_showCutMarks = False,
      sp_paperDimensions = a4_paper, sp_margins = margins10, sp_noGap = False\<rparr>"




definition stamp_size :: PassportSize where
  "stamp_size = \<lparr>name = ''Stamp Size (20x25 mm)'', width_mm = 20, height_mm = 25\<rparr>"

definition margins29 :: Margins where
  "margins29 = \<lparr>top_m = 10, right_m = 29, bottom_m = 10, left_m = 29\<rparr>"

section \<open>Facts about double-precision rounding\<close>

lemma expo_bounds:
  assumes "x \<noteq> 0"
  shows "2 powi expo x \<le> \<bar>x\<bar>" and "\<bar>x\<bar> < 2 powi (expo x + 1)"
proof -
  have "2 powi expo x \<le> \<bar>x\<bar> \<and> \<bar>x\<bar> < 2 powi (expo x + 1)"
  proof (cases "1 \<le> \<bar>x\<bar>")
    case True
    let ?n = "\<lfloor>\<bar>x\<bar>\<rfloor>"
    from True have n: "0 < ?n" by linarith
    then have b: "1 \<le> bitlen ?n"
      using bitlen_eq_zero_iff [of ?n] bitlen_nonneg [of ?n] by linarith
    from bitlen_bounds [OF n]
    have lo: "(2::int) ^ nat (bitlen ?n - 1) \<le> ?n" and hi: "?n < 2 ^ nat (bitlen ?n)"
      by simp_all
    have e: "expo x = bitlen ?n - 1" using True by (simp add: expo_def)
    have "(2::real) powi expo x = 2 ^ nat (bitlen ?n - 1)"
      using b by (simp add: e power_int_nonneg_exp)
    also have "\<dots> = real_of_int (2 ^ nat (bitlen ?n - 1))" by simp
    also have "\<dots> \<le> real_of_int ?n" using lo by (simp only: of_int_le_iff)
    also have "\<dots> \<le> \<bar>x\<bar>" by simp
    finally have l: "2 powi expo x \<le> \<bar>x\<bar>" .
    have "?n + 1 \<le> 2 ^ nat (bitlen ?n)" using hi by simp
    then have "real_of_int (?n + 1) \<le> real_of_int (2 ^ nat (bitlen ?n))"
      by (simp only: of_int_le_iff)
    then have A: "real_of_int ?n + 1 \<le> 2 ^ nat (bitlen ?n)" by simp
    have B: "\<bar>x\<bar> < real_of_int ?n + 1" by linarith
    have C: "(2::real) powi (expo x + 1) = 2 ^ nat (bitlen ?n)"
      using b by (simp add: e power_int_nonneg_exp)
    from A B have "\<bar>x\<bar> < 2 ^ nat (bitlen ?n)" by linarith
    with C have "\<bar>x\<bar> < 2 powi (expo x + 1)" by simp
    with l show ?thesis by simp
  next
    case False
    let ?y = "1 / \<bar>x\<bar>"
    let ?m = "\<lceil>?y\<rceil> - 1"
    from False assms have x: "0 < \<bar>x\<bar>" "\<bar>x\<bar> < 1" by simp_all
    then have y: "1 < ?y" by simp
    then have m: "0 < ?m" by linarith
    then have b: "1 \<le> bitlen ?m"
      using bitlen_eq_zero_iff [of ?m] bitlen_nonneg [of ?m] by linarith
    from bitlen_bounds [OF m]
    have lo: "(2::int) ^ nat (bitlen ?m - 1) \<le> ?m" and hi: "?m < 2 ^ nat (bitlen ?m)"
      by simp_all
    have e: "expo x = - bitlen ?m" using False by (simp add: expo_def)
    have "?m + 1 \<le> 2 ^ nat (bitlen ?m)" using hi by simp
    then have "real_of_int (?m + 1) \<le> real_of_int (2 ^ nat (bitlen ?m))"
      by (simp only: of_int_le_iff)
    then have A: "real_of_int ?m + 1 \<le> 2 ^ nat (bitlen ?m)" by simp
    have B: "?y \<le> real_of_int ?m + 1" by linarith
    from A B have yhi: "?y \<le> 2 ^ nat (bitlen ?m)" by linarith
    have "real_of_int (2 ^ nat (bitlen ?m - 1)) \<le> real_of_int ?m"
      using lo by (simp only: of_int_le_iff)
    then have A': "2 ^ nat (bitlen ?m - 1) \<le> real_of_int ?m" by simp
    have B': "real_of_int ?m < ?y" by linarith
    from A' B' have ylo: "2 ^ nat (bitlen ?m - 1) < ?y" by linarith
    have p1: "(2::real) powi expo x = 1 / 2 ^ nat (bitlen ?m)"
      using b by (simp add: e power_int_minus_divide power_int_nonneg_exp)
    have p2: "(2::real) powi (expo x + 1) = 1 / 2 ^ nat (bitlen ?m - 1)"
    proof -
      have "expo x + 1 = - (bitlen ?m - 1)" by (simp add: e)
      then show ?thesis
        using b by (simp only: power_int_minus_divide) (simp add: power_int_nonneg_exp)
    qed
    have l: "2 powi expo x \<le> \<bar>x\<bar>"
    proof -
      from yhi x(1) have "1 \<le> 2 ^ nat (bitlen ?m) * \<bar>x\<bar>"
        by (simp add: pos_divide_le_eq)
      then have "1 / 2 ^ nat (bitlen ?m) \<le> \<bar>x\<bar>"
        by (simp add: pos_divide_le_eq mult.commute)
      then show ?thesis by (simp only: p1)
    qed
    have u: "\<bar>x\<bar> < 2 powi (expo x + 1)"
    proof -
      from ylo x(1) have "2 ^ nat (bitlen ?m - 1) * \<bar>x\<bar> < 1"
        by (simp add: pos_less_divide_eq)
      then have "\<bar>x\<bar> < 1 / 2 ^ nat (bitlen ?m - 1)"
        by (simp add: pos_less_divide_eq mult.commute)
      then show ?thesis by (simp only: p2)
    qed
    from l u show ?thesis by simp
  qed
  then show "2 powi expo x \<le> \<bar>x\<bar>" and "\<bar>x\<bar> < 2 powi (expo x + 1)" by simp_all
qed

lemma round_even_of_int [simp]: "round_even (of_int n) = n"
  by (simp add: round_even_def)

lemma round_even_ge: "of_int n \<le> q \<Longrightarrow> n \<le> round_even q"
  by (auto simp add: round_even_def Let_def le_floor_iff; linarith)

lemma round_even_le: "q \<le> of_int n \<Longrightarrow> round_even q \<le> n"
  by (auto simp add: round_even_def Let_def; linarith)

lemma round_even_error: "\<bar>of_int (round_even q) - q\<bar> \<le> 1 / 2"
  by (auto simp add: round_even_def Let_def; linarith)

lemma scaled_bounds:
  assumes "x \<noteq> 0"
  shows "2 ^ 52 \<le> \<bar>x * 2 powi (52 - expo x)\<bar>" and "\<bar>x * 2 powi (52 - expo x)\<bar> < 2 ^ 53"
proof -
  let ?s = "(2::real) powi (52 - expo x)"
  have s: "0 < ?s" by simp
  have a: "\<bar>x * ?s\<bar> = \<bar>x\<bar> * ?s" using s by (simp add: abs_mult)
  have lo: "(2::real) powi expo x * ?s = 2 ^ 52"
    using power_int_add [of "2::real" "expo x" "52 - expo x"] by simp
  have hi: "(2::real) powi (expo x + 1) * ?s = 2 ^ 53"
    using power_int_add [of "2::real" "expo x + 1" "52 - expo x"] by simp
  have "2 powi expo x * ?s \<le> \<bar>x\<bar> * ?s"
    using expo_bounds(1) [OF assms] s by (simp add: mult_right_mono)
  then show "2 ^ 52 \<le> \<bar>x * 2 powi (52 - expo x)\<bar>" by (simp only: a lo)
  have "\<bar>x\<bar> * ?s < 2 powi (expo x + 1) * ?s"
    using expo_bounds(2) [OF assms] s by (simp add: mult_strict_right_mono)
  then show "\<bar>x * 2 powi (52 - expo x)\<bar> < 2 ^ 53" by (simp only: a hi)
qed

lemma fl_pos:
  assumes "0 < x"
  shows "0 < fl x"
proof -
  let ?q = "x * 2 powi (52 - expo x)"
  from assms have nz: "x \<noteq> 0" by simp
  have "0 < ?q" using assms by simp
  with scaled_bounds(1) [OF nz] have "real_of_int (2 ^ 52) \<le> ?q" by simp
  then have "2 ^ 52 \<le> round_even ?q" by (rule round_even_ge)
  then have "0 < real_of_int (round_even ?q)" by simp
  then have "0 < real_of_int (round_even ?q) * 2 powi (expo x - 52)" by simp
  then show ?thesis using nz by (simp add: fl_def)
qed

lemma fl_neg:
  assumes "x < 0"
  shows "fl x < 0"
proof -
  let ?q = "x * 2 powi (52 - expo x)"
  from assms have nz: "x \<noteq> 0" by simp
  have "?q < 0" using assms by (simp add: mult_neg_pos)
  with scaled_bounds(1) [OF nz] have "?q \<le> real_of_int (- (2 ^ 52))" by simp
  then have "round_even ?q \<le> - (2 ^ 52)" by (rule round_even_le)
  then have "real_of_int (round_even ?q) < 0" by simp
  then have "real_of_int (round_even ?q) * 2 powi (expo x - 52) < 0"
    by (simp add: mult_neg_pos)
  then show ?thesis using nz by (simp add: fl_def)
qed

lemma fl_zero [simp]: "fl 0 = 0"
  by (simp add: fl_def)

lemma fl_sign_cases:
  "(x < 0 \<and> fl x < 0) \<or> (x = 0 \<and> fl x = 0) \<or> (0 < x \<and> 0 < fl x)"
proof -
  consider "x < 0" | "x = 0" | "0 < x" by linarith
  then show ?thesis
  proof cases
    case 1
    then show ?thesis using fl_neg by blast
  next
    case 2
    then show ?thesis by simp
  next
    case 3
    then show ?thesis using fl_pos by blast
  qed
qed

lemma fl_pos_iff [simp]: "0 < fl x \<longleftrightarrow> 0 < x"
  using fl_sign_cases [of x] by linarith

lemma fl_nonneg_iff [simp]: "0 \<le> fl x \<longleftrightarrow> 0 \<le> x"
  using fl_sign_cases [of x] by linarith

lemma fl_nonpos_iff [simp]: "fl x \<le> 0 \<longleftrightarrow> x \<le> 0"
  using fl_sign_cases [of x] by linarith

lemma fl_error: "\<bar>fl x - x\<bar> \<le> \<bar>x\<bar> / 2 ^ 53"
proof (cases "x = 0")
  case True
  then show ?thesis by simp
next
  case False
  let ?s = "(2::real) powi (52 - expo x)"
  let ?t = "(2::real) powi (expo x - 52)"
  let ?q = "x * ?s"
  have st: "?s * ?t = 1"
    using power_int_add [of "2::real" "52 - expo x" "expo x - 52"] by simp
  have t: "0 < ?t" by simp
  have x: "x = ?q * ?t" using st by (simp add: mult.assoc)
  have "fl x - x = (real_of_int (round_even ?q) - ?q) * ?t"
    using False x by (simp add: fl_def left_diff_distrib)
  then have "\<bar>fl x - x\<bar> = \<bar>real_of_int (round_even ?q) - ?q\<bar> * ?t"
    using t by (simp add: abs_mult)
  also have "\<dots> \<le> (1 / 2) * ?t"
    using round_even_error [of ?q] t by (intro mult_right_mono) simp_all
  also have "\<dots> = 2 powi expo x / 2 ^ 53"
  proof -
    have "(2::real) powi expo x = ?t * 2 ^ 52"
      using power_int_add [of "2::real" "expo x - 52" 52] by simp
    then show ?thesis by simp
  qed
  also have "\<dots> \<le> \<bar>x\<bar> / 2 ^ 53"
    using expo_bounds(1) [OF False] by (simp add: divide_right_mono)
  finally show ?thesis .
qed

lemma fl_of_int:
  assumes "\<bar>n\<bar> < 2 ^ 53"
  shows "fl (real_of_int n) = real_of_int n"
proof (cases "n = 0")
  case True
  then show ?thesis by simp
next
  case False
  let ?x = "real_of_int n"
  have nz: "?x \<noteq> 0" using False by simp
  have "\<bar>?x\<bar> < 2 ^ 53"
  proof -
    have "real_of_int \<bar>n\<bar> < real_of_int (2 ^ 53)" using assms by (simp only: of_int_less_iff)
    then show ?thesis by simp
  qed
  with expo_bounds(1) [OF nz] have "(2::real) powi expo ?x < 2 powi 53" by simp
  then have "expo ?x < 53"
    by (rule power_int_le_imp_less_exp [rotated]) simp_all
  then have k: "0 \<le> 52 - expo ?x" by simp
  let ?k = "nat (52 - expo ?x)"
  have s: "(2::real) powi (52 - expo ?x) = real_of_int (2 ^ ?k)"
    using k by (simp add: power_int_nonneg_exp)
  have "?x * 2 powi (52 - expo ?x) = real_of_int (n * 2 ^ ?k)"
    by (simp only: s of_int_mult)
  then have r: "round_even (?x * 2 powi (52 - expo ?x)) = n * 2 ^ ?k"
    by (simp only: round_even_of_int)
  have st: "(2::real) powi (52 - expo ?x) * 2 powi (expo ?x - 52) = 1"
    using power_int_add [of "2::real" "52 - expo ?x" "expo ?x - 52"] by simp
  have "fl ?x = real_of_int (n * 2 ^ ?k) * 2 powi (expo ?x - 52)"
    using nz by (simp only: fl_def r if_False)
  also have "\<dots> = ?x * (2 powi (52 - expo ?x) * 2 powi (expo ?x - 52))"
    by (simp only: of_int_mult s mult.assoc)
  finally show ?thesis by (simp only: st mult_1_right)
qed

lemma floor_fdiv_int:
  assumes "0 \<le> i" and "i < 2 ^ 53" and "0 < c"
  shows "\<lfloor>fdiv (real_of_int i) (real_of_int c)\<rfloor> = i div c"
proof (cases "i mod c = 0")
  case True
  then have "real_of_int i / real_of_int c = real_of_int (i div c)"
    using assms(3) by (simp add: real_of_int_div dvd_eq_mod_eq_0)
  moreover have "\<bar>i div c\<bar> < 2 ^ 53"
  proof -
    have "0 \<le> i div c" using assms by (simp add: pos_imp_zdiv_nonneg_iff)
    moreover have "i div c \<le> i"
    proof -
      have "i div c * 1 \<le> i div c * c"
        using \<open>0 \<le> i div c\<close> assms(3) by (intro mult_left_mono) simp_all
      moreover have "i div c * c \<le> i"
      proof -
        have "i div c * c + i mod c = i" by simp
        then show ?thesis using pos_mod_sign [OF assms(3), of i] by linarith
      qed
      ultimately show ?thesis by simp
    qed
    ultimately show ?thesis using assms(2) by simp
  qed
  ultimately show ?thesis by (simp add: fdiv_def fl_of_int)
next
  case False
  let ?x = "real_of_int i / real_of_int c"
  let ?k = "i div c"
  have c: "0 < real_of_int c" using assms(3) by simp
  have r: "1 \<le> i mod c" "i mod c \<le> c - 1"
    using False pos_mod_sign [OF assms(3), of i] pos_mod_bound [OF assms(3), of i]
    by linarith+
  have i: "i = ?k * c + i mod c" by simp
  have x: "?x = real_of_int ?k + real_of_int (i mod c) / real_of_int c"
  proof -
    have "real_of_int i = real_of_int ?k * real_of_int c + real_of_int (i mod c)"
      using i by (metis of_int_add of_int_mult)
    then show ?thesis using c by (simp add: field_simps)
  qed
  have lo: "real_of_int ?k + 1 / real_of_int c \<le> ?x"
  proof -
    have "real_of_int 1 \<le> real_of_int (i mod c)"
      using r(1) by (simp only: of_int_le_iff)
    then have "1 / real_of_int c \<le> real_of_int (i mod c) / real_of_int c"
      using c by (intro divide_right_mono) simp_all
    then show ?thesis by (simp only: x)
  qed
  have hi: "?x \<le> real_of_int ?k + 1 - 1 / real_of_int c"
  proof -
    have "real_of_int (i mod c) \<le> real_of_int (c - 1)"
      using r(2) by (simp only: of_int_le_iff)
    then have "real_of_int (i mod c) / real_of_int c \<le> real_of_int (c - 1) / real_of_int c"
      using c by (intro divide_right_mono) simp_all
    also have "\<dots> = 1 - 1 / real_of_int c" using c by (simp add: field_simps)
    finally show ?thesis by (simp only: x)
  qed
  have ipos: "0 < i" using r(1) assms(1,3) by (cases "i = 0") simp_all
  have err: "\<bar>fl ?x - ?x\<bar> < 1 / real_of_int c"
  proof -
    have "real_of_int i < 2 ^ 53"
    proof -
      have "real_of_int i < real_of_int (2 ^ 53)" using assms(2) by (simp only: of_int_less_iff)
      then show ?thesis by simp
    qed
    then have "real_of_int i / 2 ^ 53 < 1" by simp
    then have a: "real_of_int i / 2 ^ 53 / real_of_int c < 1 / real_of_int c"
      using c by (rule divide_strict_right_mono)
    have "\<bar>?x\<bar> = ?x" using assms(1) c by simp
    then have b: "\<bar>?x\<bar> / 2 ^ 53 = real_of_int i / 2 ^ 53 / real_of_int c"
      by (simp only: divide_divide_eq_left mult.commute)
    from fl_error [of ?x] have "\<bar>fl ?x - ?x\<bar> \<le> real_of_int i / 2 ^ 53 / real_of_int c"
      by (simp only: b)
    then show ?thesis using a by (rule le_less_trans)
  qed
  have "real_of_int ?k \<le> fl ?x" and "fl ?x < real_of_int ?k + 1"
    using lo hi err by linarith+
  then show ?thesis by (simp add: fdiv_def floor_unique)
qed

subsection \<open>The unit converter in double precision\<close>

lemma fl_25_4: "fl 25.4 = 3574732204225331 / 140737488355328"
  by code_simp

lemma fl_127_5: "fl (127 / 5) = 3574732204225331 / 140737488355328"
  using fl_25_4 by simp

lemma mmToPx_f64_pos_iff [simp]: "(0 < mmToPx_f64 mm) = (0 < mm)"
  by (simp add: mmToPx_f64_def fmul_def fdiv_def DPI_def fl_127_5 zero_less_mult_iff
        zero_less_divide_iff)

lemma mmToPx_f64_nonneg_iff [simp]: "(0 \<le> mmToPx_f64 mm) = (0 \<le> mm)"
  by (simp add: mmToPx_f64_def fmul_def fdiv_def DPI_def fl_127_5 zero_le_mult_iff
        zero_le_divide_iff)

lemma mmToPx_f64_nonpos_iff [simp]: "(mmToPx_f64 mm \<le> 0) = (mm \<le> 0)"
  using mmToPx_f64_pos_iff [of mm] by linarith

lemma mmToPx_f64_zero [simp]: "mmToPx_f64 0 = 0"
  by (simp add: mmToPx_f64_def fmul_def fdiv_def)

text \<open>
  The double-precision converter is within a relative error of \<open>2^-51\<close> of the exact
  \<open>mm / 25.4 * DPI\<close>: one rounding of the literal, one of the quotient, one of the
  product.
\<close>

lemma mmToPx_f64_error:
  "\<bar>mmToPx_f64 mm - mm / 25.4 * DPI\<bar> \<le> \<bar>mm / 25.4 * DPI\<bar> / 2 ^ 51"
proof -
  define x1 where "x1 = mm / fl 25.4"
  define q1 where "q1 = fl x1"
  define e where "e = mm / 25.4 * 300"
  define V where "V = fl (q1 * 300)"
  define E where "E = \<bar>e\<bar>"
  define X where "X = \<bar>x1\<bar>"
  define Q where "Q = \<bar>q1\<bar>"
  have v: "mmToPx_f64 mm = V"
    by (simp add: mmToPx_f64_def fmul_def fdiv_def DPI_def q1_def x1_def V_def)
  have p53: "(2::real) ^ 53 = 9007199254740992" and p51: "(2::real) ^ 51 = 2251799813685248"
    by simp_all
  have a1: "\<bar>q1 - x1\<bar> \<le> X / 9007199254740992"
    unfolding q1_def X_def p53 [symmetric] by (rule fl_error)
  have a2: "\<bar>V - q1 * 300\<bar> \<le> 300 * Q / 9007199254740992"
    using fl_error [of "q1 * 300"] by (simp add: V_def Q_def abs_mult)
  have x: "x1 = e * (17873661021126656 / 5362098306337996500)"
    by (simp add: x1_def e_def fl_127_5)
  have ax: "X = E * (17873661021126656 / 5362098306337996500)"
    unfolding X_def E_def x by (simp add: abs_mult)
  have "300 * x1 - e = e / 17873661021126655"
    unfolding x by simp
  then have a3: "\<bar>300 * x1 - e\<bar> = E / 17873661021126655"
    unfolding E_def by (simp only: abs_divide)
  have E0: "0 \<le> E" by (simp add: E_def)
  have q: "Q \<le> X + \<bar>q1 - x1\<bar>"
    unfolding Q_def X_def by linarith
  have "V - e = (V - q1 * 300) + (300 * (q1 - x1) + (300 * x1 - e))"
    by simp
  then have "\<bar>V - e\<bar> \<le> \<bar>V - q1 * 300\<bar> + \<bar>300 * (q1 - x1) + (300 * x1 - e)\<bar>"
    by (simp only: abs_triangle_ineq)
  also have "\<dots> \<le> \<bar>V - q1 * 300\<bar> + (\<bar>300 * (q1 - x1)\<bar> + \<bar>300 * x1 - e\<bar>)"
    by (simp only: add_left_mono abs_triangle_ineq)
  also have "\<dots> = \<bar>V - q1 * 300\<bar> + (300 * \<bar>q1 - x1\<bar> + \<bar>300 * x1 - e\<bar>)"
    by (simp only: abs_mult abs_numeral)
  finally have t: "\<bar>V - e\<bar> \<le> \<bar>V - q1 * 300\<bar> + (300 * \<bar>q1 - x1\<bar> + \<bar>300 * x1 - e\<bar>)" .
  have "\<bar>V - e\<bar> \<le> E / 2251799813685248"
    using t a1 a2 a3 ax q E0 by linarith
  then show ?thesis
    unfolding v p51 by (simp add: e_def E_def DPI_def)
qed
section \<open>Facts about the unit converter\<close>

lemma mmToPx_le0: "mmToPx x \<le> 0 \<longleftrightarrow> x \<le> 0"
  by (simp add: mmToPx_def DPI_def mult_le_0_iff divide_le_0_iff)

lemma mmToPx_pos: "0 < mmToPx x \<longleftrightarrow> 0 < x"
  by (simp add: mmToPx_def DPI_def zero_less_mult_iff)

lemma mmToPx_nonneg: "0 \<le> mmToPx x \<longleftrightarrow> 0 \<le> x"
  by (simp add: mmToPx_def DPI_def zero_le_mult_iff zero_le_divide_iff)

lemma calc_gapPx_nonneg: "0 \<le> calc_gapPx ng"
  by (simp add: calc_gapPx_def mmToPx_nonneg)


section \<open>Unit converter (C2)\<close>

lemma mmToPx_f64_1: "mmToPx_f64 1 = 831126899736189 / 70368744177664"
  by code_simp

lemma mmToPx_f64_210: "mmToPx_f64 210 = 5454270279518741 / 2199023255552"
  by code_simp

lemma mmToPx_f64_297: "mmToPx_f64 297 = 964237067272063 / 274877906944"
  by code_simp

lemma setCanvasDimension_floor:
  assumes "0 \<le> x" and "x < 2 ^ 31"
  shows "setCanvasDimension dflt x = \<lfloor>x\<rfloor>"
proof -
  have a: "0 \<le> \<lfloor>x\<rfloor>" using assms(1) by simp
  have "\<lfloor>x\<rfloor> < 2 ^ 31" using assms(2) by (simp add: floor_less_iff)
  then have b: "\<lfloor>x\<rfloor> < 2147483648" by simp
  then have "\<lfloor>x\<rfloor> mod 2 ^ 32 = \<lfloor>x\<rfloor>" using a by simp
  then show ?thesis
    using assms(1) b by (simp add: setCanvasDimension_def toUnsignedLong_def Let_def)
qed

text \<open>
  The integer part of a double-precision pixel count below \<open>2^31\<close> is the rounded exact
  value or one less.
\<close>

lemma floor_mmToPx_f64_near_round:
  assumes "0 \<le> mm" and "mmToPx_f64 mm < 2 ^ 31"
  shows "\<lfloor>mmToPx_f64 mm\<rfloor> = round (mm / 25.4 * DPI)
         \<or> \<lfloor>mmToPx_f64 mm\<rfloor> = round (mm / 25.4 * DPI) - 1"
proof -
  define e where "e = mm / 25.4 * DPI"
  define v where "v = mmToPx_f64 mm"
  have e0: "0 \<le> e" using assms(1) by (simp add: e_def DPI_def)
  have p51: "(2::real) ^ 51 = 2251799813685248" and p31: "(2::real) ^ 31 = 2147483648"
    by simp_all
  have err: "\<bar>v - e\<bar> \<le> e / 2251799813685248"
    using mmToPx_f64_error [of mm] e0 unfolding v_def e_def p51 by simp
  have v31: "v < 2147483648"
    using assms(2) unfolding v_def p31 .
  have e32: "e < 4294967296"
    using err v31 by linarith
  have close: "\<bar>v - e\<bar> < 1 / 2"
    using err e32 by linarith
  have r1: "real_of_int (round e) \<le> e + 1 / 2" and r2: "e + 1 / 2 < real_of_int (round e) + 1"
    unfolding round_def by linarith+
  have f1: "real_of_int \<lfloor>v\<rfloor> \<le> v" and f2: "v < real_of_int \<lfloor>v\<rfloor> + 1"
    by linarith+
  have "real_of_int \<lfloor>v\<rfloor> < real_of_int (round e) + 1"
    using close r2 f1 by linarith
  then have up: "\<lfloor>v\<rfloor> \<le> round e" by linarith
  have "real_of_int (round e) - 2 < real_of_int \<lfloor>v\<rfloor>"
    using close r1 f2 by linarith
  then have lo: "round e - 1 \<le> \<lfloor>v\<rfloor>" by linarith
  from up lo have "\<lfloor>v\<rfloor> = round e \<or> \<lfloor>v\<rfloor> = round e - 1" by linarith
  then show ?thesis by (simp only: v_def e_def)
qed

text \<open>
  C2, as stated, fails in both halves. \<^verbatim>\<open>mmToPx\<close> takes no DPI argument and does not
  round: one millimetre is 11.811023622047244 pixels (1500/127 before rounding to a
  double), not the 12 that rounding to the nearest integer gives. And the raster of an A4
  sheet is 2480 by 3507 pixels: \<^verbatim>\<open>canvas.height = paperHeightPx\<close> drops the fraction of
  3507.8740157480315, where rounding 297 mm gives 3508.
\<close>

theorem C2_mmToPx_round_counterexample:
  "mmToPx_f64 1 = 831126899736189 / 70368744177664
   \<and> mmToPx 1 = 1500 / 127
   \<and> real_of_int (round (1 / 25.4 * DPI)) = 12
   \<and> mmToPx_f64 1 \<noteq> real_of_int (round (1 / 25.4 * DPI))
   \<and> renderSheetDirectlyToCanvas good_browser empty_sheet = Returns blank_a4
   \<and> height (sp_paperDimensions empty_sheet) = 297
   \<and> canvas_height blank_a4 = 3507
   \<and> round (297 / 25.4 * DPI) = 3508"
proof -
  have a: "mmToPx 1 = 1500 / 127"
    by (simp add: mmToPx_def DPI_def)
  have b: "real_of_int (round (1 / 25.4 * DPI)) = 12"
    by (simp add: DPI_def round_def)
  have c: "mmToPx_f64 1 \<noteq> real_of_int (round (1 / 25.4 * DPI))"
    unfolding b mmToPx_f64_1 by simp
  have w: "setCanvasDimension 300 (mmToPx_f64 210) = 2480"
    unfolding mmToPx_f64_210 by (simp add: setCanvasDimension_def toUnsignedLong_def)
  have h: "setCanvasDimension 150 (mmToPx_f64 297) = 3507"
    unfolding mmToPx_f64_297 by (simp add: setCanvasDimension_def toUnsignedLong_def)
  have r: "renderSheetDirectlyToCanvas good_browser empty_sheet = Returns blank_a4"
    using w h
    by (simp add: renderSheetDirectlyToCanvas_def Let_def good_browser_def empty_sheet_def
          blank_a4_def a4_paper_def A4_DIMENSIONS_MM_width_def A4_DIMENSIONS_MM_height_def)
  have d: "height (sp_paperDimensions empty_sheet) = 297"
    by (simp add: empty_sheet_def a4_paper_def A4_DIMENSIONS_MM_height_def)
  have e: "canvas_height blank_a4 = 3507"
    by (simp add: blank_a4_def)
  have f: "round (297 / 25.4 * DPI) = 3508"
    by (simp add: DPI_def round_def)
  from mmToPx_f64_1 a b c r d e f show ?thesis by blast
qed

text \<open>
  C2, amended. \<^verbatim>\<open>mmToPx(mm)\<close> is \<open>(mm / 25.4) * 300\<close> computed in double precision and
  not rounded to an integer: it is within a relative error of \<open>2^-51\<close> of the exact
  \<open>mm / 25.4 * 300\<close>. The direct renderer, when it returns a canvas, has assigned that
  number to \<^verbatim>\<open>canvas.width\<close> and \<^verbatim>\<open>canvas.height\<close>, and the canvas keeps its integer
  part: for a paper dimension that is not negative and gives fewer than \<open>2^31\<close> pixels,
  the raster's pixel width (height) is the floor of \<^verbatim>\<open>mmToPx\<close> of the paper's width
  (height), which is the rounded value of the contract or one less.
\<close>

theorem C2_raster_is_floor_of_mmToPx:
  "\<bar>mmToPx_f64 mm - mm / 25.4 * DPI\<bar> \<le> \<bar>mm / 25.4 * DPI\<bar> / 2 ^ 51
   \<and> (renderSheetDirectlyToCanvas browser props = Returns c
        \<and> 0 \<le> width (sp_paperDimensions props)
        \<and> mmToPx_f64 (width (sp_paperDimensions props)) < 2 ^ 31 \<longrightarrow>
      canvas_width c = \<lfloor>mmToPx_f64 (width (sp_paperDimensions props))\<rfloor>
      \<and> (canvas_width c = round (width (sp_paperDimensions props) / 25.4 * DPI)
          \<or> canvas_width c = round (width (sp_paperDimensions props) / 25.4 * DPI) - 1))
   \<and> (renderSheetDirectlyToCanvas browser props = Returns c
        \<and> 0 \<le> height (sp_paperDimensions props)
        \<and> mmToPx_f64 (height (sp_paperDimensions props)) < 2 ^ 31 \<longrightarrow>
      canvas_height c = \<lfloor>mmToPx_f64 (height (sp_paperDimensions props))\<rfloor>
      \<and> (canvas_height c = round (height (sp_paperDimensions props) / 25.4 * DPI)
          \<or> canvas_height c = round (height (sp_paperDimensions props) / 25.4 * DPI) - 1))"
proof -
  have cw: "canvas_width c = setCanvasDimension 300 (mmToPx_f64 (width (sp_paperDimensions props)))"
    and ch: "canvas_height c = setCanvasDimension 150 (mmToPx_f64 (height (sp_paperDimensions props)))"
    if "renderSheetDirectlyToCanvas browser props = Returns c"
    using that
    by (auto simp add: renderSheetDirectlyToCanvas_def Let_def split: if_splits option.splits)
  have w: "canvas_width c = \<lfloor>mmToPx_f64 (width (sp_paperDimensions props))\<rfloor>
      \<and> (canvas_width c = round (width (sp_paperDimensions props) / 25.4 * DPI)
          \<or> canvas_width c = round (width (sp_paperDimensions props) / 25.4 * DPI) - 1)"
    if r: "renderSheetDirectlyToCanvas browser props = Returns c"
      and p: "0 \<le> width (sp_paperDimensions props)"
      and b: "mmToPx_f64 (width (sp_paperDimensions props)) < 2 ^ 31"
  proof -
    have "0 \<le> mmToPx_f64 (width (sp_paperDimensions props))" using p by simp
    from setCanvasDimension_floor [OF this b] cw [OF r]
    have "canvas_width c = \<lfloor>mmToPx_f64 (width (sp_paperDimensions props))\<rfloor>" by simp
    with floor_mmToPx_f64_near_round [OF p b] show ?thesis by simp
  qed
  have h: "canvas_height c = \<lfloor>mmToPx_f64 (height (sp_paperDimensions props))\<rfloor>
      \<and> (canvas_height c = round (height (sp_paperDimensions props) / 25.4 * DPI)
          \<or> canvas_height c = round (height (sp_paperDimensions props) / 25.4 * DPI) - 1)"
    if r: "renderSheetDirectlyToCanvas browser props = Returns c"
      and p: "0 \<le> height (sp_paperDimensions props)"
      and b: "mmToPx_f64 (height (sp_paperDimensions props)) < 2 ^ 31"
  proof -
    have "0 \<le> mmToPx_f64 (height (sp_paperDimensions props))" using p by simp
    from setCanvasDimension_floor [OF this b] ch [OF r]
    have "canvas_height c = \<lfloor>mmToPx_f64 (height (sp_paperDimensions props))\<rfloor>" by simp
    with floor_mmToPx_f64_near_round [OF p b] show ?thesis by simp
  qed
  from mmToPx_f64_error [of mm] w h show ?thesis by blast
qed

theorem C2_raster_is_floor_of_mmToPx_witness:
  "renderSheetDirectlyToCanvas good_browser empty_sheet = Returns blank_a4
   \<and> width (sp_paperDimensions empty_sheet) = 210
   \<and> height (sp_paperDimensions empty_sheet) = 297
   \<and> mmToPx_f64 210 < 2 ^ 31 \<and> mmToPx_f64 297 < 2 ^ 31
   \<and> canvas_width blank_a4 = \<lfloor>mmToPx_f64 210\<rfloor>
   \<and> canvas_width blank_a4 = round (210 / 25.4 * DPI)
   \<and> canvas_height blank_a4 = \<lfloor>mmToPx_f64 297\<rfloor>
   \<and> canvas_height blank_a4 = round (297 / 25.4 * DPI) - 1
   \<and> \<bar>mmToPx_f64 210 - 210 / 25.4 * DPI\<bar> \<le> \<bar>210 / 25.4 * DPI\<bar> / 2 ^ 51"
proof -
  have wd: "width (sp_paperDimensions empty_sheet) = 210"
    and hd: "height (sp_paperDimensions empty_sheet) = 297"
    by (simp_all add: empty_sheet_def a4_paper_def A4_DIMENSIONS_MM_width_def
          A4_DIMENSIONS_MM_height_def)
  have bw: "mmToPx_f64 210 < 2 ^ 31" and bh: "mmToPx_f64 297 < 2 ^ 31"
    unfolding mmToPx_f64_210 mmToPx_f64_297 by simp_all
  have w: "setCanvasDimension 300 (mmToPx_f64 210) = 2480"
    unfolding mmToPx_f64_210 by (simp add: setCanvasDimension_def toUnsignedLong_def)
  have h: "setCanvasDimension 150 (mmToPx_f64 297) = 3507"
    unfolding mmToPx_f64_297 by (simp add: setCanvasDimension_def toUnsignedLong_def)
  have r: "renderSheetDirectlyToCanvas good_browser empty_sheet = Returns blank_a4"
    using w h
    by (simp add: renderSheetDirectlyToCanvas_def Let_def good_browser_def empty_sheet_def
          blank_a4_def a4_paper_def A4_DIMENSIONS_MM_width_def A4_DIMENSIONS_MM_height_def)
  note t = C2_raster_is_floor_of_mmToPx [of 210 good_browser empty_sheet blank_a4]
  from t have e: "\<bar>mmToPx_f64 210 - 210 / 25.4 * DPI\<bar> \<le> \<bar>210 / 25.4 * DPI\<bar> / 2 ^ 51"
    by (rule conjunct1)
  from t r wd hd bw bh have fw: "canvas_width blank_a4 = \<lfloor>mmToPx_f64 210\<rfloor>"
    and fh: "canvas_height blank_a4 = \<lfloor>mmToPx_f64 297\<rfloor>"
    by simp_all
  have rw: "canvas_width blank_a4 = round (210 / 25.4 * DPI)"
    by (simp add: blank_a4_def DPI_def round_def)
  have rh: "canvas_height blank_a4 = round (297 / 25.4 * DPI) - 1"
    by (simp add: blank_a4_def DPI_def round_def)
  from r wd hd bw bh fw rw fh rh e show ?thesis by blast
qed

section \<open>Facts about the double-precision calculator and packer\<close>

lemma count_mul_f64_exact:
  assumes "\<bar>a * b\<bar> < 2 ^ 53"
  shows "count_mul_f64 a b = a * b"
proof -
  have "fl (real_of_int (a * b)) = real_of_int (a * b)"
    using assms by (rule fl_of_int)
  then have "fmul (real_of_int a) (real_of_int b) = real_of_int (a * b)"
    by (simp add: fmul_def)
  then show ?thesis
    by (simp only: count_mul_f64_def floor_of_int)
qed

lemma calc_gapPx_f64_nonneg: "0 \<le> calc_gapPx_f64 ng"
  by (simp add: calc_gapPx_f64_def)

lemma pack_gapPx_f64_nonneg: "0 \<le> pack_gapPx_f64 ng"
  by (simp add: pack_gapPx_f64_def)

lemma fdiv_fit_nonneg:
  assumes "0 \<le> W" and "0 \<le> g" and "0 < t"
  shows "0 \<le> fdiv (fadd W g) (fadd t g)"
  using assms by (simp add: fdiv_def fadd_def zero_le_divide_iff)

lemma cols_f64_nonneg: "0 \<le> W \<Longrightarrow> 0 \<le> cols_f64 W rot ps cm ng"
  using pack_gapPx_f64_nonneg [of ng] by (simp add: cols_f64_def fdiv_fit_nonneg)

lemma rows_f64_nonneg: "0 \<le> H \<Longrightarrow> 0 \<le> rows_f64 H rot ps cm ng"
  using pack_gapPx_f64_nonneg [of ng] by (simp add: rows_f64_def fdiv_fit_nonneg)

text \<open>
  Without cut-mark padding (cut marks off, or no gap) the packer's cell and grid are the
  calculator's for the chosen photo orientation, in double precision too.
\<close>

lemma packer_agrees_without_padding_f64:
  assumes "\<not> (cm \<and> \<not> ng)"
  shows "totalWidth_f64 False ps cm ng = totalWidthPerImage_P_f64 ps cm ng"
    and "totalHeight_f64 False ps cm ng = totalHeightPerImage_P_f64 ps cm ng"
    and "totalWidth_f64 True ps cm ng = totalWidthPerImage_L_f64 ps cm ng"
    and "totalHeight_f64 True ps cm ng = totalHeightPerImage_L_f64 ps cm ng"
    and "cols_f64 W False ps cm ng = cols_P_f64 W ps cm ng"
    and "rows_f64 H False ps cm ng = rows_P_f64 H ps cm ng"
    and "cols_f64 W True ps cm ng = cols_L_f64 W ps cm ng"
    and "rows_f64 H True ps cm ng = rows_L_f64 H ps cm ng"
  using assms
  by (auto simp add: totalWidth_f64_def totalHeight_f64_def totalWidthPerImage_P_f64_def
        totalHeightPerImage_P_f64_def totalWidthPerImage_L_f64_def totalHeightPerImage_L_f64_def
        cols_f64_def rows_f64_def cols_P_f64_def rows_P_f64_def cols_L_f64_def rows_L_f64_def
        photoW_def photoH_def pack_markPaddingPx_f64_def calc_markPaddingPx_f64_def
        pack_gapPx_f64_def calc_gapPx_f64_def)


text \<open>
  A printable width or height that is zero or negative gives capacity 0 and no page in
  double precision too.
\<close>

lemma nonpositive_printable_area_f64:
  assumes "fsub (fsub (width pd) (left_m m)) (right_m m) \<le> 0
           \<or> fsub (fsub (height pd) (top_m m)) (bottom_m m) \<le> 0"
  shows "calculateLayoutInfo_f64 (width pd) (height pd) photoSize m cm ng
           = \<lparr>portrait = 0, landscape = 0, max_info = 0, rotateForMax = False\<rparr>"
    and "paginatedLayout_standard_f64 toPrint pd m ng cm rot photoSize = Inr []"
  using assms
  by (auto simp add: calculateLayoutInfo_f64_def paginatedLayout_standard_f64_def Let_def
        pack_printableWidthPx_f64_def pack_printableHeightPx_f64_def split: option.splits)

lemma js_rem_small: "0 \<le> a \<Longrightarrow> a < b \<Longrightarrow> js_rem a b = a"
  by (simp add: js_rem_def sgn_if)

lemma js_rem_nonneg: "0 \<le> a \<Longrightarrow> 0 < b \<Longrightarrow> js_rem a b = a mod b"
  by (simp add: js_rem_def sgn_if)

lemma placeStandard_f64_grid:
  assumes "0 < ncols" and "int i < perPage" and "perPage \<le> 2 ^ 53"
  shows "placeStandard_f64 perPage ncols tw th g xs i
           = positioned (xs ! i) (fmul (real_of_int (int i mod ncols)) (fadd tw g))
               (fmul (real_of_int (int i div ncols)) (fadd th g)) tw th"
proof -
  have a: "js_rem (int i) perPage = int i"
    using assms(2) by (simp add: js_rem_small)
  have b: "js_rem (int i) ncols = int i mod ncols"
    using assms(1) by (simp add: js_rem_nonneg)
  have "int i < 2 ^ 53" using assms(2,3) by linarith
  then have c: "\<lfloor>fdiv (real_of_int (int i)) (real_of_int ncols)\<rfloor> = int i div ncols"
    using assms(1) by (intro floor_fdiv_int) simp_all
  show ?thesis
    unfolding placeStandard_f64_def Let_def a b c ..
qed

lemma grid_cell_unique:
  fixes c :: int
  assumes "i mod c = j mod c" and "i div c = j div c"
  shows "i = j"
  using assms by (metis mult_div_mod_eq)

lemma grid_row_bound:
  fixes c r :: int
  assumes "0 < c" and "0 \<le> i" and "i < c * r"
  shows "0 \<le> i div c \<and> i div c < r"
proof -
  have "0 \<le> i div c" using assms by (simp add: pos_imp_zdiv_nonneg_iff)
  moreover have "i div c < r"
  proof (rule ccontr)
    assume "\<not> i div c < r"
    then have "r \<le> i div c" by simp
    then have "c * r \<le> c * (i div c)"
      using assms(1) by (simp add: mult_left_mono)
    moreover have "c * (i div c) \<le> i"
      using mult_div_mod_eq [of c i] pos_mod_sign [OF assms(1), of i] by linarith
    ultimately show False using assms(3) by linarith
  qed
  ultimately show ?thesis by simp
qed

text \<open>
  The standard-mode packer in double precision, for a grid of fewer than \<open>2^53\<close> cells:
  at most one page, \<open>min (length of the flat list, cols * rows)\<close> instances, row-major
  cells.
\<close>

lemma paginatedLayout_standard_f64_pages:
  assumes W: "0 < pack_printableWidthPx_f64 pd m" and H: "0 < pack_printableHeightPx_f64 pd m"
    and nc: "ncols = cols_f64 (pack_printableWidthPx_f64 pd m) rot ps cm ng"
    and nr: "nrows = rows_f64 (pack_printableHeightPx_f64 pd m) rot ps cm ng"
    and small: "ncols * nrows < 2 ^ 53"
  shows "\<exists>pgs. paginatedLayout_standard_f64 toPrint pd m ng cm rot (Some ps) = Inr pgs
              \<and> length pgs \<le> 1
              \<and> length (concat pgs) = min (length toPrint) (nat (ncols * nrows))
              \<and> (0 < min (length toPrint) (nat (ncols * nrows)) \<longrightarrow> length pgs = 1)
              \<and> (\<forall>pg \<in> set pgs. \<forall>i < length pg.
                    pg ! i = positioned (toPrint ! i)
                               (fmul (real_of_int (int i mod ncols))
                                  (fadd (totalWidth_f64 rot ps cm ng) (pack_gapPx_f64 ng)))
                               (fmul (real_of_int (int i div ncols))
                                  (fadd (totalHeight_f64 rot ps cm ng) (pack_gapPx_f64 ng)))
                               (totalWidth_f64 rot ps cm ng) (totalHeight_f64 rot ps cm ng)
                    \<and> 0 \<le> int i mod ncols \<and> int i mod ncols < ncols
                    \<and> 0 \<le> int i div ncols \<and> int i div ncols < nrows
                    \<and> (\<forall>j < length pg.
                          int j mod ncols = int i mod ncols \<and> int j div ncols = int i div ncols
                          \<longrightarrow> j = i))"
proof -
  let ?W = "pack_printableWidthPx_f64 pd m"
  let ?H = "pack_printableHeightPx_f64 pd m"
  let ?tw = "totalWidth_f64 rot ps cm ng"
  let ?th = "totalHeight_f64 rot ps cm ng"
  let ?g = "pack_gapPx_f64 ng"
  define cap where "cap = ncols * nrows"
  have c0: "0 \<le> ncols" and r0: "0 \<le> nrows"
    using W H nc nr by (simp_all add: cols_f64_nonneg rows_f64_nonneg)
  then have "0 \<le> ncols * nrows" by simp
  then have "\<bar>ncols * nrows\<bar> < 2 ^ 53" using small by simp
  then have ipp: "itemsPerPage_f64 ?W ?H rot ps cm ng = cap"
    unfolding itemsPerPage_f64_def nc [symmetric] nr [symmetric] cap_def
    by (rule count_mul_f64_exact)
  show ?thesis
  proof (cases "toPrint = [] \<or> cap \<le> 0")
    case True
    have "paginatedLayout_standard_f64 toPrint pd m ng cm rot (Some ps) = Inr []"
    proof (cases "toPrint = []")
      case True
      then show ?thesis by (simp add: paginatedLayout_standard_f64_def)
    next
      case False
      with True have "cap \<le> 0" by simp
      then have "standardPages_f64 toPrint ?W ?H ng cm rot ps = [[]]"
        using ipp by (simp add: standardPages_f64_def Let_def)
      then show ?thesis
        using False W H by (simp add: paginatedLayout_standard_f64_def Let_def)
    qed
    moreover have "min (length toPrint) (nat cap) = 0"
      using True by auto
    ultimately show ?thesis unfolding cap_def [symmetric] by simp
  next
    case False
    then have ne: "toPrint \<noteq> []" and pos: "0 < cap" by simp_all
    have cpos: "0 < ncols"
      using pos c0 r0 by (auto simp add: cap_def zero_less_mult_iff)
    let ?xs = "take (nat cap) toPrint"
    let ?pg = "map (placeStandard_f64 cap ncols ?tw ?th ?g ?xs) [0..<length ?xs]"
    have e: "standardPages_f64 toPrint ?W ?H ng cm rot ps = [?pg]"
      using pos ipp nc by (simp add: standardPages_f64_def Let_def)
    have l: "length ?pg = min (length toPrint) (nat cap)"
      by simp
    have lpos: "0 < length ?pg" using l ne pos by simp
    have r: "paginatedLayout_standard_f64 toPrint pd m ng cm rot (Some ps) = Inr [?pg]"
      using ne W H e lpos by (simp add: paginatedLayout_standard_f64_def Let_def)
    have capb: "cap \<le> 2 ^ 53" using small by (simp add: cap_def)
    have cell: "?pg ! i = positioned (toPrint ! i)
                               (fmul (real_of_int (int i mod ncols)) (fadd ?tw ?g))
                               (fmul (real_of_int (int i div ncols)) (fadd ?th ?g)) ?tw ?th
                \<and> 0 \<le> int i mod ncols \<and> int i mod ncols < ncols
                \<and> 0 \<le> int i div ncols \<and> int i div ncols < nrows
                \<and> (\<forall>j < length ?pg.
                      int j mod ncols = int i mod ncols \<and> int j div ncols = int i div ncols
                      \<longrightarrow> j = i)"
      if "i < length ?pg" for i
    proof -
      from that have i: "i < length ?xs" by simp
      then have ic: "int i < cap" by (simp add: zless_nat_eq_int_zless)
      from placeStandard_f64_grid [OF cpos ic capb, of ?tw ?th ?g ?xs] i
      have p: "?pg ! i = positioned (toPrint ! i)
                               (fmul (real_of_int (int i mod ncols)) (fadd ?tw ?g))
                               (fmul (real_of_int (int i div ncols)) (fadd ?th ?g)) ?tw ?th"
        by simp
      from ic have "int i < ncols * nrows" by (simp add: cap_def)
      from grid_row_bound [OF cpos _ this]
      have rb: "0 \<le> int i div ncols \<and> int i div ncols < nrows" by simp
      have cb: "0 \<le> int i mod ncols \<and> int i mod ncols < ncols"
        using cpos by simp
      have u: "\<forall>j < length ?pg.
                      int j mod ncols = int i mod ncols \<and> int j div ncols = int i div ncols
                      \<longrightarrow> j = i"
      proof (intro allI impI)
        fix j
        assume "j < length ?pg"
          and "int j mod ncols = int i mod ncols \<and> int j div ncols = int i div ncols"
        then have "int j = int i"
          using grid_cell_unique [of "int j" ncols "int i"] by simp
        then show "j = i" by simp
      qed
      from p rb cb u show ?thesis by blast
    qed
    show ?thesis
      unfolding cap_def [symmetric]
    proof (intro exI [of _ "[?pg]"] conjI)
      show "paginatedLayout_standard_f64 toPrint pd m ng cm rot (Some ps) = Inr [?pg]"
        by (rule r)
      show "length [?pg] \<le> 1" by simp
      show "length (concat [?pg]) = min (length toPrint) (nat cap)"
        using l by simp
      show "0 < min (length toPrint) (nat cap) \<longrightarrow> length [?pg] = 1"
        by simp
      show "\<forall>pg \<in> set [?pg]. \<forall>i < length pg.
                    pg ! i = positioned (toPrint ! i)
                               (fmul (real_of_int (int i mod ncols)) (fadd ?tw ?g))
                               (fmul (real_of_int (int i div ncols)) (fadd ?th ?g)) ?tw ?th
                    \<and> 0 \<le> int i mod ncols \<and> int i mod ncols < ncols
                    \<and> 0 \<le> int i div ncols \<and> int i div ncols < nrows
                    \<and> (\<forall>j < length pg.
                          int j mod ncols = int i mod ncols \<and> int j div ncols = int i div ncols
                          \<longrightarrow> j = i)"
        using cell by simp
    qed
  qed
qed

section \<open>The double-precision calculator on two sheets\<close>

text \<open>
  The values below are binary64 numbers written as fractions; each line is one
  evaluation of the definitions.
\<close>

lemma calc_gapPx_f64_value: "calc_gapPx_f64 False = 831126899736189 / 35184372088832"
  by code_simp

lemma mmToPx_f64_152: "mmToPx_f64 152 = 7895705547493795 / 4398046511104"
  by code_simp

lemma mmToPx_f64_190: "mmToPx_f64 190 = 2467407983591811 / 1099511627776"
  by code_simp

lemma mmToPx_f64_277: "mmToPx_f64 277 = 3597221112920693 / 1099511627776"
  by code_simp

lemma stamp_size_cell_width_f64: "totalWidthPerImage_P_f64 stamp_size False False = 4155634498680945 / 17592186044416"
  by code_simp

lemma stamp_size_cell_height_f64: "totalHeightPerImage_P_f64 stamp_size False False = 5194543123351181 / 17592186044416"
  by code_simp

lemma india_passport_cell_width_f64: "totalWidthPerImage_P_f64 india_passport False False = 3636180186345827 / 8796093022208"
  by code_simp

lemma india_passport_cell_height_f64: "totalHeightPerImage_P_f64 india_passport False False = 4675088811016063 / 8796093022208"
  by code_simp

lemma stamp_cols_quotient: "fdiv (fadd (7895705547493795 / 4398046511104) (831126899736189 / 35184372088832)) (fadd (4155634498680945 / 17592186044416) (831126899736189 / 35184372088832)) = 7881299347898367 / 1125899906842624"
  by code_simp

lemma stamp_rows_quotient: "fdiv (fadd (3597221112920693 / 1099511627776) (831126899736189 / 35184372088832)) (fadd (5194543123351181 / 17592186044416) (831126899736189 / 35184372088832)) = 5817149518686891 / 562949953421312"
  by code_simp

lemma a4_cols_P_quotient: "fdiv (fadd (2467407983591811 / 1099511627776) (831126899736189 / 35184372088832)) (fadd (3636180186345827 / 8796093022208) (831126899736189 / 35184372088832)) = 1460626906174215 / 281474976710656"
  by code_simp

lemma a4_rows_P_quotient: "fdiv (fadd (3597221112920693 / 1099511627776) (831126899736189 / 35184372088832)) (fadd (4675088811016063 / 8796093022208) (831126899736189 / 35184372088832)) = 417720843097197 / 70368744177664"
  by code_simp

lemma a4_cols_L_quotient: "fdiv (fadd (2467407983591811 / 1099511627776) (831126899736189 / 35184372088832)) (fadd (4675088811016063 / 8796093022208) (831126899736189 / 35184372088832)) = 2299710448018977 / 562949953421312"
  by code_simp

lemma a4_rows_L_quotient: "fdiv (fadd (3597221112920693 / 1099511627776) (831126899736189 / 35184372088832)) (fadd (3636180186345827 / 8796093022208) (831126899736189 / 35184372088832)) = 8489893892137625 / 1125899906842624"
  by code_simp

lemma printable_152: "fsub (fsub 210 29) 29 = 152"
  by code_simp

lemma printable_190: "fsub (fsub 210 10) 10 = 190"
  by code_simp

lemma printable_277: "fsub (fsub 297 10) 10 = 277"
  by code_simp

lemma landscape_cell_f64:
  "totalWidthPerImage_L_f64 ps cm ng = totalHeightPerImage_P_f64 ps cm ng"
  "totalHeightPerImage_L_f64 ps cm ng = totalWidthPerImage_P_f64 ps cm ng"
  by (simp_all add: totalWidthPerImage_L_f64_def totalHeightPerImage_L_f64_def
        totalWidthPerImage_P_f64_def totalHeightPerImage_P_f64_def)

lemma stamp_cols_P_f64: "cols_P_f64 (mmToPx_f64 152) stamp_size False False = 6"
  by (simp add: cols_P_f64_def mmToPx_f64_152 calc_gapPx_f64_value stamp_size_cell_width_f64
        stamp_cols_quotient)

lemma stamp_rows_P_f64: "rows_P_f64 (mmToPx_f64 277) stamp_size False False = 10"
  by (simp add: rows_P_f64_def mmToPx_f64_277 calc_gapPx_f64_value stamp_size_cell_height_f64
        stamp_rows_quotient)

lemma a4_cols_P_f64: "cols_P_f64 (mmToPx_f64 190) india_passport False False = 5"
  by (simp add: cols_P_f64_def mmToPx_f64_190 calc_gapPx_f64_value
        india_passport_cell_width_f64 a4_cols_P_quotient)

lemma a4_rows_P_f64: "rows_P_f64 (mmToPx_f64 277) india_passport False False = 5"
  by (simp add: rows_P_f64_def mmToPx_f64_277 calc_gapPx_f64_value
        india_passport_cell_height_f64 a4_rows_P_quotient)

lemma a4_cols_L_f64: "cols_L_f64 (mmToPx_f64 190) india_passport False False = 4"
  by (simp add: cols_L_f64_def landscape_cell_f64 mmToPx_f64_190 calc_gapPx_f64_value
        india_passport_cell_height_f64 a4_cols_L_quotient)

lemma a4_rows_L_f64: "rows_L_f64 (mmToPx_f64 277) india_passport False False = 7"
  by (simp add: rows_L_f64_def landscape_cell_f64 mmToPx_f64_277 calc_gapPx_f64_value
        india_passport_cell_width_f64 a4_rows_L_quotient)

lemma count_mul_f64_small:
  "count_mul_f64 6 10 = 60" "count_mul_f64 5 5 = 25" "count_mul_f64 4 7 = 28"
  by (simp_all add: count_mul_f64_exact)

lemma stamp_layoutInfo_f64:
  "portrait (calculateLayoutInfo_f64 210 297 (Some stamp_size) margins29 False False) = 60"
  using stamp_cols_P_f64 stamp_rows_P_f64
  by (simp add: calculateLayoutInfo_f64_def Let_def margins29_def stamp_size_def printable_152
        printable_277 count_mul_f64_small)

lemma a4_layoutInfo_f64:
  "calculateLayoutInfo_f64 210 297 (Some india_passport) margins10 False False
     = \<lparr>portrait = 25, landscape = 28, max_info = 28, rotateForMax = True\<rparr>"
  using a4_cols_P_f64 a4_rows_P_f64 a4_cols_L_f64 a4_rows_L_f64
  by (simp add: calculateLayoutInfo_f64_def Let_def margins10_def india_passport_def
        printable_190 printable_277 count_mul_f64_small)

subsection \<open>The same sheet with cut-mark padding\<close>

lemma padded_cell_width_calc_f64: "totalWidthPerImage_P_f64 india_passport True False = 3671364558434659 / 8796093022208"
  by code_simp

lemma padded_cell_height_calc_f64: "totalHeightPerImage_P_f64 india_passport True False = 4710273183104895 / 8796093022208"
  by code_simp

lemma padded_cell_width_pack_f64: "totalWidth_f64 False india_passport True False = 8103487272427843 / 17592186044416"
  by code_simp

lemma padded_cell_height_pack_f64: "totalHeight_f64 False india_passport True False = 2545326130442079 / 4398046511104"
  by code_simp

lemma padded_cols_calc_quotient: "fdiv (fadd (2467407983591811 / 1099511627776) (831126899736189 / 35184372088832)) (fadd (3671364558434659 / 8796093022208) (831126899736189 / 35184372088832)) = 2894757652216431 / 562949953421312"
  by code_simp

lemma padded_rows_calc_quotient: "fdiv (fadd (3597221112920693 / 1099511627776) (831126899736189 / 35184372088832)) (fadd (4710273183104895 / 8796093022208) (831126899736189 / 35184372088832)) = 414732416605909 / 70368744177664"
  by code_simp

lemma padded_cols_pack_quotient: "fdiv (fadd (2467407983591811 / 1099511627776) (831126899736189 / 35184372088832)) (fadd (8103487272427843 / 17592186044416) (831126899736189 / 35184372088832)) = 5272506880823995 / 1125899906842624"
  by code_simp

lemma padded_rows_pack_quotient: "fdiv (fadd (3597221112920693 / 1099511627776) (831126899736189 / 35184372088832)) (fadd (2545326130442079 / 4398046511104) (831126899736189 / 35184372088832)) = 3079667392246001 / 562949953421312"
  by code_simp

lemma pack_gapPx_f64_value: "pack_gapPx_f64 False = 831126899736189 / 35184372088832"
  using calc_gapPx_f64_value by (simp add: pack_gapPx_f64_def calc_gapPx_f64_def)

lemma padded_cols_P_f64: "cols_P_f64 (mmToPx_f64 190) india_passport True False = 5"
  by (simp add: cols_P_f64_def mmToPx_f64_190 calc_gapPx_f64_value padded_cell_width_calc_f64
        padded_cols_calc_quotient)

lemma padded_rows_P_f64: "rows_P_f64 (mmToPx_f64 277) india_passport True False = 5"
  by (simp add: rows_P_f64_def mmToPx_f64_277 calc_gapPx_f64_value padded_cell_height_calc_f64
        padded_rows_calc_quotient)

lemma padded_cols_f64: "cols_f64 (mmToPx_f64 190) False india_passport True False = 4"
  by (simp add: cols_f64_def mmToPx_f64_190 pack_gapPx_f64_value padded_cell_width_pack_f64
        padded_cols_pack_quotient)

lemma padded_rows_f64: "rows_f64 (mmToPx_f64 277) False india_passport True False = 5"
  by (simp add: rows_f64_def mmToPx_f64_277 pack_gapPx_f64_value padded_cell_height_pack_f64
        padded_rows_pack_quotient)

lemma padded_layoutInfo_f64:
  "portrait (calculateLayoutInfo_f64 210 297 (Some india_passport) margins10 True False) = 25"
  using padded_cols_P_f64 padded_rows_P_f64
  by (simp add: calculateLayoutInfo_f64_def Let_def margins10_def india_passport_def
        printable_190 printable_277 count_mul_f64_small)

text \<open>
  The unit slip of the cut-mark padding shows in double precision as it does over the
  exact reals: the calculator counts 5 x 5 cells, the packer lays out 4 x 5.
\<close>

lemma packer_grid_differs_f64:
  "portrait (calculateLayoutInfo_f64 210 297 (Some india_passport) margins10 True False) = 25
   \<and> cols_P_f64 (mmToPx_f64 190) india_passport True False = 5
   \<and> rows_P_f64 (mmToPx_f64 277) india_passport True False = 5
   \<and> itemsPerPage_f64 (mmToPx_f64 190) (mmToPx_f64 277) False india_passport True False = 20
   \<and> cols_f64 (mmToPx_f64 190) False india_passport True False = 4
   \<and> rows_f64 (mmToPx_f64 277) False india_passport True False = 5"
  by (simp add: padded_layoutInfo_f64 padded_cols_P_f64 padded_rows_P_f64 padded_cols_f64
        padded_rows_f64 itemsPerPage_f64_def count_mul_f64_exact)

subsection \<open>The packer's grid on the A4 sheet\<close>

lemma a4_printable_f64:
  "pack_printableWidthPx_f64 a4_paper margins10 = mmToPx_f64 190"
  "pack_printableHeightPx_f64 a4_paper margins10 = mmToPx_f64 277"
  by (simp_all add: pack_printableWidthPx_f64_def pack_printableHeightPx_f64_def a4_paper_def
        margins10_def A4_DIMENSIONS_MM_width_def A4_DIMENSIONS_MM_height_def printable_190
        printable_277)

lemma a4_printable_f64_pos:
  "0 < pack_printableWidthPx_f64 a4_paper margins10"
  "0 < pack_printableHeightPx_f64 a4_paper margins10"
  by (simp_all add: a4_printable_f64)

lemma a4_pack_grid_f64:
  "cols_f64 (mmToPx_f64 190) False india_passport False False = 5"
  "rows_f64 (mmToPx_f64 277) False india_passport False False = 5"
  "cols_f64 (mmToPx_f64 190) True india_passport False False = 4"
  "rows_f64 (mmToPx_f64 277) True india_passport False False = 7"
  by (simp_all add: packer_agrees_without_padding_f64 a4_cols_P_f64 a4_rows_P_f64 a4_cols_L_f64
        a4_rows_L_f64)

text \<open>
  The lengths of the pages that the packer returns, from the number of instances placed.
\<close>

lemma page_lengths:
  assumes "r = Inr pgs" and "length pgs = 1" and "length (concat pgs) = n"
  shows "map_sum id (map length) r = Inr [n]"
proof -
  from assms(2) obtain pg where "pgs = [pg]"
    by (cases pgs) simp_all
  with assms(1,3) show ?thesis by simp
qed

section \<open>Layout Calculator (C3, C7, C1)\<close>

lemma calculateLayoutInfo_fixed:
  assumes "name ps \<noteq> ''Random Size''"
    and "0 < paperWidthMm - left_m margins - right_m margins"
    and "0 < paperHeightMm - top_m margins - bottom_m margins"
  shows "calculateLayoutInfo paperWidthMm paperHeightMm (Some ps) margins cm ng =
           \<lparr>portrait = cols_P (mmToPx (paperWidthMm - left_m margins - right_m margins)) ps cm ng
                        * rows_P (mmToPx (paperHeightMm - top_m margins - bottom_m margins)) ps cm ng,
            landscape = cols_L (mmToPx (paperWidthMm - left_m margins - right_m margins)) ps cm ng
                        * rows_L (mmToPx (paperHeightMm - top_m margins - bottom_m margins)) ps cm ng,
            max_info = max (cols_P (mmToPx (paperWidthMm - left_m margins - right_m margins)) ps cm ng
                            * rows_P (mmToPx (paperHeightMm - top_m margins - bottom_m margins)) ps cm ng)
                           (cols_L (mmToPx (paperWidthMm - left_m margins - right_m margins)) ps cm ng
                            * rows_L (mmToPx (paperHeightMm - top_m margins - bottom_m margins)) ps cm ng),
            rotateForMax =
              (cols_L (mmToPx (paperWidthMm - left_m margins - right_m margins)) ps cm ng
               * rows_L (mmToPx (paperHeightMm - top_m margins - bottom_m margins)) ps cm ng
               > cols_P (mmToPx (paperWidthMm - left_m margins - right_m margins)) ps cm ng
                 * rows_P (mmToPx (paperHeightMm - top_m margins - bottom_m margins)) ps cm ng)\<rparr>"
  using assms by (simp add: calculateLayoutInfo_def Let_def)

lemma a4_example_cols: "cols_P (mmToPx 190) india_passport False False = 5"
  by (simp add: cols_P_def totalWidthPerImage_P_def calc_gapPx_def calc_markPaddingPx_def
        mmToPx_def DPI_def india_passport_def)

lemma a4_example_rows: "rows_P (mmToPx 277) india_passport False False = 5"
  by (simp add: rows_P_def totalHeightPerImage_P_def calc_gapPx_def calc_markPaddingPx_def
        mmToPx_def DPI_def india_passport_def)

text \<open>
  C3 at the failing input: A4, margins 29 mm left and right and 10 mm top and bottom, the
  20 x 25 mm stamp size, the 2 mm gap, no cut marks. The printable width is 152 mm and the
  cell footprint fits on both axes. Seven cells of 20 mm and six gaps of 2 mm fill 152 mm
  exactly, \<open>floor ((152 + 2) / (20 + 2)) = 7\<close>, and so does the quotient of the exact
  pixel values. The calculator divides the rounded pixel values: the quotient is
  6.999999999999999, \<^verbatim>\<open>Math.floor\<close> gives 6 columns, and the portrait capacity is
  6 x 10 = 60, not 7 x 10 = 70. On the sheet of the scenario (10 mm margins, 35 x 45 mm)
  the calculator gives the 5 columns, 5 rows and capacity 25 of the claim.
\<close>

theorem C3_floor_of_rounded_quotient:
  "fsub (fsub 210 (left_m margins29)) (right_m margins29) = 152
   \<and> fsub (fsub 297 (top_m margins29)) (bottom_m margins29) = 277
   \<and> totalWidthPerImage_P_f64 stamp_size False False \<le> mmToPx_f64 152
   \<and> totalHeightPerImage_P_f64 stamp_size False False \<le> mmToPx_f64 277
   \<and> \<lfloor>(152 + 2) / (20 + 2 :: real)\<rfloor> = 7
   \<and> \<lfloor>(mmToPx 152 + mmToPx 2) / (mmToPx 20 + mmToPx 2)\<rfloor> = 7
   \<and> fdiv (fadd (mmToPx_f64 152) (calc_gapPx_f64 False))
        (fadd (totalWidthPerImage_P_f64 stamp_size False False) (calc_gapPx_f64 False))
      = 7881299347898367 / 1125899906842624
   \<and> cols_P_f64 (mmToPx_f64 152) stamp_size False False = 6
   \<and> rows_P_f64 (mmToPx_f64 277) stamp_size False False = 10
   \<and> portrait (calculateLayoutInfo_f64 210 297 (Some stamp_size) margins29 False False) = 60
   \<and> cols_P_f64 (mmToPx_f64 190) india_passport False False = 5
   \<and> rows_P_f64 (mmToPx_f64 277) india_passport False False = 5
   \<and> portrait (calculateLayoutInfo_f64 210 297 (Some india_passport) margins10 False False) = 25"
proof -
  have a: "fsub (fsub 210 (left_m margins29)) (right_m margins29) = 152"
    by (simp add: margins29_def printable_152)
  have b: "fsub (fsub 297 (top_m margins29)) (bottom_m margins29) = 277"
    by (simp add: margins29_def printable_277)
  have c: "totalWidthPerImage_P_f64 stamp_size False False \<le> mmToPx_f64 152"
    by (simp add: stamp_size_cell_width_f64 mmToPx_f64_152)
  have d: "totalHeightPerImage_P_f64 stamp_size False False \<le> mmToPx_f64 277"
    by (simp add: stamp_size_cell_height_f64 mmToPx_f64_277)
  have e: "\<lfloor>(152 + 2) / (20 + 2 :: real)\<rfloor> = 7"
    by simp
  have f: "\<lfloor>(mmToPx 152 + mmToPx 2) / (mmToPx 20 + mmToPx 2)\<rfloor> = 7"
    by (simp add: mmToPx_def DPI_def)
  have g: "fdiv (fadd (mmToPx_f64 152) (calc_gapPx_f64 False))
        (fadd (totalWidthPerImage_P_f64 stamp_size False False) (calc_gapPx_f64 False))
      = 7881299347898367 / 1125899906842624"
    by (simp add: mmToPx_f64_152 calc_gapPx_f64_value stamp_size_cell_width_f64
          stamp_cols_quotient)
  have h: "portrait (calculateLayoutInfo_f64 210 297 (Some india_passport) margins10 False False)
             = 25"
    by (simp add: a4_layoutInfo_f64)
  from a b c d e f g stamp_cols_P_f64 stamp_rows_P_f64 stamp_layoutInfo_f64 a4_cols_P_f64
    a4_rows_P_f64 h
  show ?thesis by blast
qed

lemma imagesToPrint_no_images: "imagesToPrint q [] False = []"
  by (simp add: imagesToPrint_def expandId_def)

lemma wrapRow_pages [simp]:
  "pages (wrapRow W g w s) = pages s" "pageIndex (wrapRow W g w s) = pageIndex s"
  by (simp_all add: wrapRow_def)

lemma newPage_index:
  "pageIndex s + 1 = length (pages s)
   \<Longrightarrow> pageIndex (newPage H h s) + 1 = length (pages (newPage H h s))"
  by (simp add: newPage_def)

lemma placeRandom_index:
  assumes "pageIndex s + 1 = length (pages s)"
  shows "\<exists>s'. placeRandom g img w h s = Inr s' \<and> pageIndex s' + 1 = length (pages s')"
  using assms by (simp add: placeRandom_def)

lemma randomLoop_no_TypeError:
  "pageIndex s + 1 = length (pages s) \<Longrightarrow> randomLoop T W H g imgs s \<noteq> Inl TypeError"
proof (induction imgs arbitrary: s)
  case Nil
  then show ?case by simp
next
  case (Cons img imgs)
  show ?case
  proof (cases "scaledDims T img")
    case None
    then show ?thesis by simp
  next
    case (Some d)
    obtain w h where d: "d = (w, h)" by (cases d)
    have "pageIndex (newPage H h (wrapRow W g w s)) + 1
            = length (pages (newPage H h (wrapRow W g w s)))"
      using Cons.prems by (intro newPage_index) simp
    from placeRandom_index [OF this, of g img w h]
    obtain s' where s': "placeRandom g img w h (newPage H h (wrapRow W g w s)) = Inr s'"
      and i': "pageIndex s' + 1 = length (pages s')" by blast
    show ?thesis
      using Some d s' Cons.IH [OF i'] by simp
  qed
qed

lemma paginatedLayout_no_TypeError:
  "paginatedLayout (imagesToPrint q images (isRandomSizeMode_of images)) pd m ng
     (isRandomSizeMode_of images) cm rot (passportSize_of images) scale \<noteq> Inl TypeError"
proof (cases "images = []")
  case True
  then show ?thesis
    by (simp add: paginatedLayout_def isRandomSizeMode_of_def passportSize_of_def
          imagesToPrint_no_images)
next
  case False
  have init: "pageIndex initialPackState + 1 = length (pages initialPackState)"
    by (simp add: initialPackState_def)
  from False show ?thesis
    using randomLoop_no_TypeError [OF init]
    by (auto simp add: paginatedLayout_def Let_def passportSize_of_def split: sum.splits)
qed

text \<open>
  C7. When the printable width or the printable height is zero or negative, the calculator
  returns capacity 0 for both orientations (and for the maximum), and the packer returns
  the empty pagination, in either mode and for any photo size. Neither computation has a
  throwing path there; and for the pagination the component computes (the photo size and
  the mode taken from the image list) the only \<^verbatim>\<open>TypeError\<close> of the packer, the read
  of \<^verbatim>\<open>passportSize!\<close>, is never reached, whatever the paper and the margins.
\<close>

theorem C7_nonpositive_printable_area:
  assumes "width pd - left_m m - right_m m \<le> 0 \<or> height pd - top_m m - bottom_m m \<le> 0"
  shows "calculateLayoutInfo (width pd) (height pd) photoSize m cm ng
           = \<lparr>portrait = 0, landscape = 0, max_info = 0, rotateForMax = False\<rparr>
         \<and> paginatedLayout toPrint pd m ng isRandom cm rot photoSize scale = Inr []
         \<and> paginatedLayout (imagesToPrint q images (isRandomSizeMode_of images)) pd' m' ng
              (isRandomSizeMode_of images) cm rot (passportSize_of images) scale \<noteq> Inl TypeError"
proof -
  have a: "calculateLayoutInfo (width pd) (height pd) photoSize m cm ng
           = \<lparr>portrait = 0, landscape = 0, max_info = 0, rotateForMax = False\<rparr>"
    using assms by (auto simp add: calculateLayoutInfo_def Let_def split: option.splits)
  have b: "paginatedLayout toPrint pd m ng isRandom cm rot photoSize scale = Inr []"
    using assms
    by (auto simp add: paginatedLayout_def Let_def pack_printableWidthPx_def
          pack_printableHeightPx_def mmToPx_le0)
  from a b paginatedLayout_no_TypeError show ?thesis by blast
qed

theorem C7_nonpositive_printable_area_witness:
  "(width a4_paper - left_m narrow_margins - right_m narrow_margins \<le> 0
    \<or> height a4_paper - top_m narrow_margins - bottom_m narrow_margins \<le> 0)
   \<and> width a4_paper - left_m narrow_margins - right_m narrow_margins = -10
   \<and> calculateLayoutInfo (width a4_paper) (height a4_paper) (Some india_passport)
        narrow_margins False False
      = \<lparr>portrait = 0, landscape = 0, max_info = 0, rotateForMax = False\<rparr>
   \<and> paginatedLayout [photo_a] a4_paper narrow_margins False False False False
        (Some india_passport) 1 = Inr []"
proof -
  have h: "width a4_paper - left_m narrow_margins - right_m narrow_margins = -10"
    by (simp add: a4_paper_def narrow_margins_def A4_DIMENSIONS_MM_width_def)
  then have h': "width a4_paper - left_m narrow_margins - right_m narrow_margins \<le> 0
    \<or> height a4_paper - top_m narrow_margins - bottom_m narrow_margins \<le> 0"
    by simp
  from C7_nonpositive_printable_area [OF h', of "Some india_passport" False False "[photo_a]"
      False False 1] h h'
  show ?thesis by blast
qed

subsection \<open>The packer's own grid against the calculator's (C1)\<close>

text \<open>
  Without cut-mark padding (cut marks off, or no gap) the packer's cell and grid are the
  calculator's for the chosen photo orientation.
\<close>

lemma packer_agrees_without_padding:
  assumes "\<not> (cm \<and> \<not> ng)"
  shows "totalWidth False ps cm ng = totalWidthPerImage_P ps cm ng"
    and "totalHeight False ps cm ng = totalHeightPerImage_P ps cm ng"
    and "totalWidth True ps cm ng = totalWidthPerImage_L ps cm ng"
    and "totalHeight True ps cm ng = totalHeightPerImage_L ps cm ng"
    and "itemsPerPage W H False ps cm ng = cols_P W ps cm ng * rows_P H ps cm ng"
    and "itemsPerPage W H True ps cm ng = cols_L W ps cm ng * rows_L H ps cm ng"
  using assms
  by (auto simp add: totalWidth_def totalHeight_def totalWidthPerImage_P_def
        totalHeightPerImage_P_def totalWidthPerImage_L_def totalHeightPerImage_L_def
        itemsPerPage_def cols_def rows_def cols_P_def rows_P_def cols_L_def rows_L_def
        photoW_def photoH_def pack_markPaddingPx_def calc_markPaddingPx_def
        pack_gapPx_def calc_gapPx_def)

text \<open>
  C1 at the failing input: A4, 10 mm margins, a 35 x 45 mm photo, cut marks on, the 2 mm
  gap, photos not rotated. The calculator pads each cell by 2 pixels
  (\<^verbatim>\<open>(MARK_PADDING_PX / DPI) * 25.4\<close> millimetres) and counts 5 x 5 = 25 cells of
  53008/127 pixels width; the packer pads by \<^verbatim>\<open>mmToPx(MARK_PADDING_PX)\<close>, 2 millimetres,
  and lays out 4 x 5 = 20 cells of 58500/127 pixels width.
\<close>

theorem C1_packer_grid_differs:
  "portrait (calculateLayoutInfo 210 297 (Some india_passport) margins10 True False) = 25
   \<and> cols_P (mmToPx 190) india_passport True False = 5
   \<and> rows_P (mmToPx 277) india_passport True False = 5
   \<and> totalWidthPerImage_P india_passport True False = 53008 / 127
   \<and> itemsPerPage (mmToPx 190) (mmToPx 277) False india_passport True False = 20
   \<and> cols (mmToPx 190) False india_passport True False = 4
   \<and> rows (mmToPx 277) False india_passport True False = 5
   \<and> totalWidth False india_passport True False = 58500 / 127"
proof -
  have cp: "cols_P (mmToPx 190) india_passport True False = 5"
    by (simp add: cols_P_def totalWidthPerImage_P_def calc_gapPx_def calc_markPaddingPx_def
          mmToPx_def DPI_def MARK_PADDING_PX_def india_passport_def)
  have rp: "rows_P (mmToPx 277) india_passport True False = 5"
    by (simp add: rows_P_def totalHeightPerImage_P_def calc_gapPx_def calc_markPaddingPx_def
          mmToPx_def DPI_def MARK_PADDING_PX_def india_passport_def)
  have p: "portrait (calculateLayoutInfo 210 297 (Some india_passport) margins10 True False) = 25"
    using cp rp by (simp add: calculateLayoutInfo_def Let_def margins10_def india_passport_def)
  have twp: "totalWidthPerImage_P india_passport True False = 53008 / 127"
    by (simp add: totalWidthPerImage_P_def calc_markPaddingPx_def mmToPx_def DPI_def
          MARK_PADDING_PX_def india_passport_def)
  have c: "cols (mmToPx 190) False india_passport True False = 4"
    by (simp add: cols_def totalWidth_def photoW_def pack_gapPx_def pack_markPaddingPx_def
          mmToPx_def DPI_def MARK_PADDING_PX_def india_passport_def)
  have r: "rows (mmToPx 277) False india_passport True False = 5"
    by (simp add: rows_def totalHeight_def photoH_def pack_gapPx_def pack_markPaddingPx_def
          mmToPx_def DPI_def MARK_PADDING_PX_def india_passport_def)
  have i: "itemsPerPage (mmToPx 190) (mmToPx 277) False india_passport True False = 20"
    using c r by (simp add: itemsPerPage_def)
  have tw: "totalWidth False india_passport True False = 58500 / 127"
    by (simp add: totalWidth_def photoW_def pack_markPaddingPx_def mmToPx_def DPI_def
          MARK_PADDING_PX_def india_passport_def)
  from p cp rp twp i c r tw show ?thesis by blast
qed

section \<open>Quantities (C10)\<close>

lemma foldl_plus_sum_list: "foldl (\<lambda>sum count. sum + count) a xs = a + sum_list (xs :: int list)"
  by (induction xs arbitrary: a) simp_all

lemma foldl_pair_sum_list:
  "foldl (\<lambda>sum (k, count). sum + count) a xs = a + sum_list (map snd (xs :: (string \<times> int) list))"
  by (induction xs arbitrary: a) (simp_all add: case_prod_beta)

lemma totalCount_sum_list: "totalCount q = sum_list (map snd q)"
  by (simp add: totalCount_def foldl_plus_sum_list)

lemma update_fresh: "k \<notin> fst ` set q \<Longrightarrow> AList.update k v q = q @ [(k, v)]"
  by (induction q) auto

lemma sum_update_distinct:
  "distinct (map fst q) \<Longrightarrow>
   sum_list (map snd (AList.update k v q))
     = sum_list (map snd (filter (\<lambda>(k', count). k' \<noteq> k) q)) + (v :: int)"
proof (induction q)
  case Nil
  then show ?case by simp
next
  case (Cons p q)
  show ?case
  proof (cases "fst p = k")
    case True
    then have "k \<notin> fst ` set q" using Cons.prems by auto
    then have "filter (\<lambda>p. fst p \<noteq> k) q = q"
      by (force simp add: filter_id_conv)
    with True show ?thesis by (simp add: case_prod_beta)
  next
    case False
    with Cons show ?thesis by (simp add: case_prod_beta)
  qed
qed

lemma sum_update_le:
  "\<forall>p \<in> set q. 0 \<le> snd p \<Longrightarrow>
   sum_list (map snd (AList.update k v q)) \<le> sum_list (map snd q) + (v :: int)"
  by (induction q) auto

lemma update_values_nonneg:
  "\<forall>p \<in> set q. 0 \<le> snd p \<Longrightarrow> 0 \<le> (v :: int) \<Longrightarrow> \<forall>p \<in> set (AList.update k v q). 0 \<le> snd p"
  by (induction q) auto

lemma filter_sum_le:
  "\<forall>p \<in> set q. 0 \<le> snd p \<Longrightarrow>
   sum_list (map snd (filter P q)) \<le> sum_list (map snd (q :: (string \<times> int) list))"
  by (induction q) auto

subsection \<open>The distribution loop\<close>

lemma distribute_other_key:
  "k \<notin> img_id ` set imgs \<Longrightarrow> map_of (distribute b r imgs q) k = map_of q k"
  by (induction imgs arbitrary: r q) (auto simp add: update_conv')

lemma distribute_lookup:
  assumes "distinct (map img_id imgs)" and "i < length imgs"
  shows "quantityOf (distribute b r imgs q) (img_id (imgs ! i))
           = b + (if int i < r then 1 else 0)"
  using assms
proof (induction imgs arbitrary: r q i)
  case Nil
  then show ?case by simp
next
  case (Cons img imgs)
  show ?case
  proof (cases i)
    case 0
    have "img_id img \<notin> img_id ` set imgs" using Cons.prems(1) by auto
    then have "map_of (distribute b (r - 1) imgs
                 (AList.update (img_id img) (b + (if r > 0 then 1 else 0)) q)) (img_id img)
               = Some (b + (if r > 0 then 1 else 0))"
      by (simp add: distribute_other_key update_conv')
    with 0 show ?thesis by (simp add: quantityOf_def)
  next
    case (Suc j)
    have d: "distinct (map img_id imgs)" and j: "j < length imgs"
      using Cons.prems Suc by auto
    have "int j < r - 1 \<longleftrightarrow> int (Suc j) < r" by auto
    with Cons.IH [OF d j, of "r - 1"] Suc show ?thesis by simp
  qed
qed


lemma distribute_sum:
  assumes "distinct (map img_id imgs)" and "img_id ` set imgs \<inter> fst ` set q = {}"
  shows "sum_list (map snd (distribute b r imgs q))
           = sum_list (map snd q) + int (length imgs) * b + min (int (length imgs)) (max 0 r)"
  using assms
proof (induction imgs arbitrary: r q)
  case Nil
  then show ?case by simp
next
  case (Cons img imgs)
  have fresh: "img_id img \<notin> fst ` set q" using Cons.prems(2) by auto
  have d: "distinct (map img_id imgs)" using Cons.prems(1) by simp
  have disj: "img_id ` set imgs \<inter> fst ` set (q @ [(img_id img, v)]) = {}" for v
    using Cons.prems by auto
  have "(if r > 0 then 1 else 0) + min (int (length imgs)) (max 0 (r - 1))
          = min (int (length imgs) + 1) (max 0 r)"
    by auto
  then show ?case
    using Cons.IH [OF d disj, of "r - 1"]
    by (simp add: update_fresh [OF fresh] algebra_simps)
qed

lemma distribute_sum_le:
  assumes "\<forall>p \<in> set q. 0 \<le> snd p" and "0 \<le> b"
  shows "sum_list (map snd (distribute b r imgs q))
           \<le> sum_list (map snd q) + int (length imgs) * b + min (int (length imgs)) (max 0 r)"
  using assms(1)
proof (induction imgs arbitrary: r q)
  case Nil
  then show ?case by simp
next
  case (Cons img imgs)
  let ?v = "b + (if r > 0 then 1 else 0)"
  let ?q = "AList.update (img_id img) ?v q"
  have v: "0 \<le> ?v" using assms(2) by simp
  have nn: "\<forall>p \<in> set ?q. 0 \<le> snd p"
    using update_values_nonneg [OF Cons.prems v] .
  have le: "sum_list (map snd ?q) \<le> sum_list (map snd q) + ?v"
    using sum_update_le [OF Cons.prems] .
  have e: "(if r > 0 then 1 else 0) + min (int (length imgs)) (max 0 (r - 1))
          = min (int (length imgs) + 1) (max 0 r)"
    by auto
  have "sum_list (map snd (distribute b (r - 1) imgs ?q))
          \<le> sum_list (map snd ?q) + int (length imgs) * b + min (int (length imgs)) (max 0 (r - 1))"
    using Cons.IH [OF nn] .
  also have "\<dots> \<le> sum_list (map snd q) + ?v + int (length imgs) * b
                   + min (int (length imgs)) (max 0 (r - 1))"
    using le by simp
  also have "\<dots> = sum_list (map snd q) + int (length (img # imgs)) * b
                   + min (int (length (img # imgs))) (max 0 r)"
    using e by (simp add: algebra_simps)
  finally show ?case by simp
qed

lemma distribute_values_nonneg:
  assumes "0 \<le> b"
  shows "\<forall>p \<in> set q. 0 \<le> snd p \<Longrightarrow> \<forall>p \<in> set (distribute b r imgs q). 0 \<le> snd p"
proof (induction imgs arbitrary: r q)
  case Nil
  then show ?case by simp
next
  case (Cons img imgs)
  have "0 \<le> b + (if r > 0 then 1 else 0)" using assms by simp
  from Cons.IH [OF update_values_nonneg [OF Cons.prems this]]
  show ?case by simp
qed

lemma distribute_distinct:
  "distinct (map fst q) \<Longrightarrow> distinct (map fst (distribute b r imgs q))"
  by (induction imgs arbitrary: r q) (simp_all add: distinct_update)

lemma floor_int_div: "\<lfloor>real_of_int a / real n\<rfloor> = a div int n"
  using floor_divide_of_int_eq [of a "int n"] by simp

lemma share_total:
  assumes "0 < n" and "0 < (c :: int)"
  shows "int n * (c div int n) + min (int n) (max 0 (c mod int n)) = c"
proof -
  have "0 \<le> c mod int n" and "c mod int n < int n"
    using assms by simp_all
  then have "min (int n) (max 0 (c mod int n)) = c mod int n" by simp
  then show ?thesis by simp
qed

lemma quantitiesEffect_standard:
  assumes "0 < length images" and "0 < maxPhotos"
  shows "quantitiesEffect False images maxPhotos old
           = distribute (maxPhotos div int (length images)) (maxPhotos mod int (length images))
               images []"
  using assms by (simp add: quantitiesEffect_def floor_int_div js_rem_nonneg)



subsection \<open>Fill page distributes the same way\<close>

lemma zero_all_lookup:
  "quantityOf (foldl (\<lambda>acc img. AList.update (img_id img) 0 acc) acc imgs) k
     = (if k \<in> img_id ` set imgs then 0 else quantityOf acc k)"
  by (induction imgs arbitrary: acc) (auto simp add: quantityOf_def update_conv')

lemma handleFillPage_quantities:
  assumes "distinct (map img_id images)"
    and "handleFillPage images baseDims margins cm ng = Some (orientation, rot, q)"
    and "c = max (max_info (calculateLayoutInfo (width baseDims) (height baseDims)
                              (passportSize_of images) margins cm ng))
                 (max_info (calculateLayoutInfo (height baseDims) (width baseDims)
                              (passportSize_of images) margins cm ng))"
  shows "(0 < c \<longrightarrow>
            totalCount q = c
            \<and> (\<forall>i < length images.
                  quantityOf q (img_id (images ! i))
                    = c div int (length images) + (if int i < c mod int (length images) then 1 else 0)))
         \<and> (c \<le> 0 \<longrightarrow> (\<forall>img \<in> set images. quantityOf q (img_id img) = 0))"
proof -
  let ?p = "max_info (calculateLayoutInfo (width baseDims) (height baseDims)
                        (passportSize_of images) margins cm ng)"
  let ?l = "max_info (calculateLayoutInfo (height baseDims) (width baseDims)
                        (passportSize_of images) margins cm ng)"
  have m: "(if ?l > ?p then ?l else ?p) = c"
    using assms(3) by (simp add: max_def)
  from assms(2) have n: "0 < length images"
    by (auto simp add: handleFillPage_def split: if_splits)
  show ?thesis
  proof (cases "0 < c")
    case True
    then have "q = distribute \<lfloor>real_of_int c / real (length images)\<rfloor>
                     (js_rem c (int (length images))) images []"
      using assms(2) m by (auto simp add: handleFillPage_def Let_def split: if_splits)
    then have q: "q = distribute (c div int (length images)) (c mod int (length images)) images []"
      using n True by (simp add: floor_int_div js_rem_nonneg)
    have "totalCount q = c"
      using distribute_sum [OF assms(1), of "[]"] share_total [OF n True]
      by (simp add: q totalCount_sum_list)
    moreover have "\<forall>i < length images.
                  quantityOf q (img_id (images ! i))
                    = c div int (length images) + (if int i < c mod int (length images) then 1 else 0)"
      using distribute_lookup [OF assms(1)] by (simp add: q)
    ultimately show ?thesis using True by simp
  next
    case False
    then have "q = foldl (\<lambda>acc img. AList.update (img_id img) 0 acc) [] images"
      using assms(2) m by (auto simp add: handleFillPage_def Let_def split: if_splits)
    then have "\<forall>img \<in> set images. quantityOf q (img_id img) = 0"
      by (simp add: zero_all_lookup)
    then show ?thesis using False by simp
  qed
qed

subsection \<open>The capacity is never negative\<close>

lemma cols_P_nonneg: "0 \<le> W \<Longrightarrow> 0 \<le> cols_P W ps cm ng"
  using calc_gapPx_nonneg [of ng] by (simp add: cols_P_def)

lemma rows_P_nonneg: "0 \<le> H \<Longrightarrow> 0 \<le> rows_P H ps cm ng"
  using calc_gapPx_nonneg [of ng] by (simp add: rows_P_def)

lemma max_info_nonneg: "0 \<le> max_info (calculateLayoutInfo pw ph photoSize m cm ng)"
proof (cases photoSize)
  case None
  then show ?thesis by (simp add: calculateLayoutInfo_def)
next
  case (Some ps)
  show ?thesis
  proof (cases "name ps \<noteq> ''Random Size'' \<and> 0 < pw - left_m m - right_m m
                 \<and> 0 < ph - top_m m - bottom_m m")
    case True
    then have W: "0 \<le> mmToPx (pw - left_m m - right_m m)"
      and H: "0 \<le> mmToPx (ph - top_m m - bottom_m m)"
      by (simp_all add: mmToPx_nonneg)
    have "0 \<le> cols_P (mmToPx (pw - left_m m - right_m m)) ps cm ng
               * rows_P (mmToPx (ph - top_m m - bottom_m m)) ps cm ng"
      using cols_P_nonneg [OF W] rows_P_nonneg [OF H] by simp
    then show ?thesis
      using True Some by (simp add: calculateLayoutInfo_fixed max_def)
  next
    case False
    then show ?thesis
      using Some by (auto simp add: calculateLayoutInfo_def Let_def)
  qed
qed

lemma maxPhotos_of_nonneg: "0 \<le> maxPhotos_of c"
  by (simp add: maxPhotos_of_def max_info_nonneg)

subsection \<open>The invariant of the quantity map\<close>

lemma quantitiesEffect_ok:
  assumes "distinct (map fst q)"
  shows "quantities_ok (c, quantitiesEffect (isRandomSizeMode_of (cfg_images c)) (cfg_images c)
                            (maxPhotos_of c) q)"
proof (cases "isRandomSizeMode_of (cfg_images c)")
  case True
  with assms show ?thesis by (simp add: quantities_ok_def quantitiesEffect_def)
next
  case False
  show ?thesis
  proof (cases "0 < length (cfg_images c) \<and> 0 < maxPhotos_of c")
    case True
    then have n: "0 < length (cfg_images c)" and m: "0 < maxPhotos_of c" by simp_all
    let ?b = "maxPhotos_of c div int (length (cfg_images c))"
    let ?r = "maxPhotos_of c mod int (length (cfg_images c))"
    have b: "0 \<le> ?b" using n m by (simp add: pos_imp_zdiv_nonneg_iff)
    have e: "quantitiesEffect False (cfg_images c) (maxPhotos_of c) q
               = distribute ?b ?r (cfg_images c) []"
      using quantitiesEffect_standard [OF n m] .
    have "sum_list (map snd (distribute ?b ?r (cfg_images c) [])) \<le> maxPhotos_of c"
      using distribute_sum_le [of "[]" ?b ?r "cfg_images c"] b share_total [OF n m] by simp
    moreover have "\<forall>p \<in> set (distribute ?b ?r (cfg_images c) []). 0 \<le> snd p"
      using distribute_values_nonneg [OF b, of "[]"] by simp
    moreover have "distinct (map fst (distribute ?b ?r (cfg_images c) []))"
      by (simp add: distribute_distinct)
    ultimately show ?thesis
      using False by (simp add: quantities_ok_def e totalCount_sum_list list_all_iff)
  next
    case nonpos: False
    then have "quantitiesEffect False (cfg_images c) (maxPhotos_of c) q = []"
      by (auto simp add: quantitiesEffect_def)
    then show ?thesis
      using False maxPhotos_of_nonneg [of c]
      by (simp add: quantities_ok_def totalCount_sum_list)
  qed
qed

lemma handleQuantityChange_standard:
  "handleQuantityChange False m q i v
     = (if 0 \<le> min v (m - sum_list (map snd (filter (\<lambda>(k, count). k \<noteq> i) q)))
        then AList.update i (min v (m - sum_list (map snd (filter (\<lambda>(k, count). k \<noteq> i) q)))) q
        else q)"
  by (simp add: handleQuantityChange_def Let_def foldl_pair_sum_list)

lemma handleQuantityChange_ok:
  assumes "quantities_ok (c, q)"
  shows "quantities_ok
           (c, handleQuantityChange (isRandomSizeMode_of (cfg_images c)) (maxPhotos_of c) q i v)"
proof (cases "isRandomSizeMode_of (cfg_images c)")
  case True
  with assms show ?thesis
    by (simp add: quantities_ok_def handleQuantityChange_def distinct_update)
next
  case False
  from assms False have d: "distinct (map fst q)"
    and nn: "\<forall>p \<in> set q. 0 \<le> snd p"
    by (simp_all add: quantities_ok_def list_all_iff)
  let ?others = "sum_list (map snd (filter (\<lambda>(k, count). k \<noteq> i) q))"
  let ?new = "min v (maxPhotos_of c - ?others)"
  show ?thesis
  proof (cases "0 \<le> ?new")
    case True
    then have e: "handleQuantityChange False (maxPhotos_of c) q i v = AList.update i ?new q"
      by (simp only: handleQuantityChange_standard if_True)
    have "sum_list (map snd (AList.update i ?new q)) \<le> maxPhotos_of c"
      using sum_update_distinct [OF d, of i ?new] by simp
    moreover have "\<forall>p \<in> set (AList.update i ?new q). 0 \<le> snd p"
      using update_values_nonneg [OF nn True] .
    moreover have "distinct (map fst (AList.update i ?new q))"
      using d by (simp add: distinct_update)
    ultimately show ?thesis
      using False by (simp add: quantities_ok_def e totalCount_sum_list list_all_iff)
  next
    case neg: False
    then have "handleQuantityChange False (maxPhotos_of c) q i v = q"
      by (simp only: handleQuantityChange_standard if_False)
    with assms False show ?thesis by simp
  qed
qed

lemma qstep_ok:
  assumes "quantities_ok s"
  shows "quantities_ok (qstep e s)"
proof -
  obtain c q where s: "s = (c, q)" by (cases s)
  from assms s have d: "distinct (map fst q)" by (simp add: quantities_ok_def)
  show ?thesis
  proof (cases e)
    case (QuantityChange i v)
    with s handleQuantityChange_ok [of c q i v] assms show ?thesis by simp
  next
    case (Reconfigure c' fresh)
    show ?thesis
    proof (cases "fresh \<or> cfg_images c' \<noteq> cfg_images c \<or> maxPhotos_of c' \<noteq> maxPhotos_of c
                  \<or> isRandomSizeMode_of (cfg_images c') \<noteq> isRandomSizeMode_of (cfg_images c)")
      case True
      then show ?thesis
        using s Reconfigure quantitiesEffect_ok [OF d, of c'] by simp
    next
      case False
      then have "qstep e s = (c', q)" using s Reconfigure by simp
      moreover have "quantities_ok (c', q)"
        using assms s False by (simp add: quantities_ok_def)
      ultimately show ?thesis by simp
    qed
  qed
qed

lemma qinit_ok: "quantities_ok (qinit c)"
  using quantitiesEffect_ok [of "[]" c] by (simp add: qinit_def)

lemma foldl_qstep_ok: "quantities_ok s \<Longrightarrow> quantities_ok (foldl (\<lambda>s e. qstep e s) s es)"
  by (induction es arbitrary: s) (simp_all add: qstep_ok)

lemma qrun_ok: "quantities_ok (qrun es c)"
  by (simp add: qrun_def foldl_qstep_ok qinit_ok)

text \<open>
  What the clamping logic keeps. Start from any configuration (the map is computed by the
  effect on mounting) and apply any sequence of slider changes through
  \<^verbatim>\<open>handleQuantityChange\<close> and of reconfigurations (new images, paper, margins or flags,
  after which the effect runs if a dependency changed). In every state reached in standard
  mode the quantities sum to at most \<^verbatim>\<open>layoutInfo.max\<close>, the number the component calls
  \<^verbatim>\<open>maxPhotos\<close>; and a requested quantity that would push the total over it is stored as
  \<^verbatim>\<open>maxPhotos\<close> minus the sum of the other images' quantities. \<^verbatim>\<open>layoutInfo.max\<close> is
  the larger of the capacities of the two photo orientations, not the capacity of the
  sheet as it is laid out.
\<close>

lemma quantities_within_layoutInfo_max:
  assumes "qrun es c0 = (c, q)" and "\<not> isRandomSizeMode_of (cfg_images c)"
  shows "totalCount q \<le> maxPhotos_of c
         \<and> totalCount (handleQuantityChange False (maxPhotos_of c) q i v) \<le> maxPhotos_of c
         \<and> (maxPhotos_of c
              < sum_list (map snd (filter (\<lambda>(k, count). k \<noteq> i) q)) + v \<longrightarrow>
            handleQuantityChange False (maxPhotos_of c) q i v
              = AList.update i
                  (maxPhotos_of c - sum_list (map snd (filter (\<lambda>(k, count). k \<noteq> i) q))) q
            \<and> quantityOf (handleQuantityChange False (maxPhotos_of c) q i v) i
                = maxPhotos_of c - sum_list (map snd (filter (\<lambda>(k, count). k \<noteq> i) q))
            \<and> totalCount (handleQuantityChange False (maxPhotos_of c) q i v) = maxPhotos_of c)"
proof -
  let ?others = "sum_list (map snd (filter (\<lambda>(k, count). k \<noteq> i) q))"
  have ok: "quantities_ok (c, q)"
    using qrun_ok [of es c0] assms(1) by simp
  with assms(2) have d: "distinct (map fst q)" and nn: "\<forall>p \<in> set q. 0 \<le> snd p"
    and le: "totalCount q \<le> maxPhotos_of c"
    by (simp_all add: quantities_ok_def list_all_iff)
  have ok': "quantities_ok (c, handleQuantityChange False (maxPhotos_of c) q i v)"
    using handleQuantityChange_ok [OF ok, of i v] assms(2) by simp
  then have le': "totalCount (handleQuantityChange False (maxPhotos_of c) q i v) \<le> maxPhotos_of c"
    using assms(2) by (simp add: quantities_ok_def)
  have room: "0 \<le> maxPhotos_of c - ?others"
    using filter_sum_le [OF nn, of "\<lambda>(k, count). k \<noteq> i"] le
    by (simp add: totalCount_sum_list)
  have clamp: "handleQuantityChange False (maxPhotos_of c) q i v
                 = AList.update i (maxPhotos_of c - ?others) q
               \<and> quantityOf (handleQuantityChange False (maxPhotos_of c) q i v) i
                   = maxPhotos_of c - ?others
               \<and> totalCount (handleQuantityChange False (maxPhotos_of c) q i v) = maxPhotos_of c"
    if over: "maxPhotos_of c < ?others + v"
  proof -
    from over have m: "min v (maxPhotos_of c - ?others) = maxPhotos_of c - ?others" by simp
    have e: "handleQuantityChange False (maxPhotos_of c) q i v
               = AList.update i (maxPhotos_of c - ?others) q"
      using room by (simp only: handleQuantityChange_standard m if_True)
    have l: "quantityOf (AList.update i (maxPhotos_of c - ?others) q) i = maxPhotos_of c - ?others"
      by (simp add: quantityOf_def update_conv')
    have t: "totalCount (AList.update i (maxPhotos_of c - ?others) q) = maxPhotos_of c"
      using sum_update_distinct [OF d, of i "maxPhotos_of c - ?others"]
      by (simp add: totalCount_sum_list)
    from e l t show ?thesis by simp
  qed
  from le le' clamp show ?thesis by blast
qed

lemma maxPhotos_two_photos_a4: "maxPhotos_of two_photos_a4 = 28"
proof -
  have cl: "cols_L (mmToPx 190) india_passport False False = 4"
    by (simp add: cols_L_def totalWidthPerImage_L_def calc_gapPx_def calc_markPaddingPx_def
          mmToPx_def DPI_def india_passport_def)
  have rl: "rows_L (mmToPx 277) india_passport False False = 7"
    by (simp add: rows_L_def totalHeightPerImage_L_def calc_gapPx_def calc_markPaddingPx_def
          mmToPx_def DPI_def india_passport_def)
  have n: "name india_passport \<noteq> ''Random Size''"
    by (simp add: india_passport_def)
  have "max_info (calculateLayoutInfo 210 297 (Some india_passport) margins10 False False) = 28"
    using a4_example_cols a4_example_rows cl rl n
    by (simp add: calculateLayoutInfo_def Let_def margins10_def)
  then show ?thesis
    by (simp add: maxPhotos_of_def two_photos_a4_def passportSize_of_def a4_paper_def
          A4_DIMENSIONS_MM_width_def A4_DIMENSIONS_MM_height_def photo_a_def)
qed

lemma standard_two_photos_a4: "\<not> isRandomSizeMode_of (cfg_images two_photos_a4)"
  by (simp add: isRandomSizeMode_of_def passportSize_of_def two_photos_a4_def photo_a_def
        india_passport_def)

lemma qinit_two_photos_a4:
  "qinit two_photos_a4 = (two_photos_a4, [(img_id photo_a, 14), (img_id photo_b, 14)])"
proof -
  have "quantitiesEffect False [photo_a, photo_b] 28 []
          = [(img_id photo_a, 14), (img_id photo_b, 14)]"
    by (simp add: quantitiesEffect_def js_rem_def photo_a_def photo_b_def)
  moreover have "cfg_images two_photos_a4 = [photo_a, photo_b]"
    by (simp add: two_photos_a4_def)
  ultimately show ?thesis
    using standard_two_photos_a4 by (simp add: qinit_def maxPhotos_two_photos_a4)
qed


section \<open>Page navigation (C8)\<close>

lemma currentPageEffect_pageCount [simp]: "pageCount (currentPageEffect s) = pageCount s"
  by (simp add: currentPageEffect_def)

lemma currentPageEffect_fixes:
  "1 \<le> currentPage s \<Longrightarrow> page_in_range (currentPageEffect s)"
  by (simp add: currentPageEffect_def page_in_range_def)

lemma currentPageEffect_idem: "currentPageEffect (currentPageEffect s) = currentPageEffect s"
  by (simp add: currentPageEffect_def)

lemma currentPageEffect_stable: "page_in_range s \<Longrightarrow> currentPageEffect s = s"
  by (auto simp add: currentPageEffect_def page_in_range_def split: if_splits)

lemma navEvent_lower: "page_in_range s \<Longrightarrow> 1 \<le> currentPage (navEvent e s)"
  by (cases e) (auto simp add: page_in_range_def split: if_splits)

lemma navStep_in_range: "page_in_range s \<Longrightarrow> page_in_range (navStep e s)"
  by (simp add: navStep_def currentPageEffect_fixes navEvent_lower)

lemma navInit_in_range: "page_in_range (navInit r n)"
  by (simp add: navInit_def currentPageEffect_fixes)

lemma navRun_in_range: "page_in_range s \<Longrightarrow> page_in_range (navRun es s)"
  unfolding navRun_def by (induction es arbitrary: s) (simp_all add: navStep_in_range)

text \<open>
  C8. From the initial state (page 1, any number of pages, after the effect has run) every
  sequence of Prev and Next clicks and of recomputations of the pagination leaves the
  current page within \<open>[1, pageCount]\<close> whenever there is at least one page, and at 1
  when there is none. Prev and Next keep it in the range by themselves; a recomputation
  that leaves \<open>n > 0\<close> pages with the current page above \<open>n\<close> sets it to \<open>n\<close>, one
  that leaves no page sets it to 1, and otherwise the current page is unchanged.
\<close>

theorem C8_currentPage_in_range:
  "(0 < pageCount (navRun es (navInit r n0)) \<longrightarrow>
      1 \<le> currentPage (navRun es (navInit r n0))
      \<and> currentPage (navRun es (navInit r n0)) \<le> int (pageCount (navRun es (navInit r n0))))
   \<and> (pageCount (navRun es (navInit r n0)) = 0 \<longrightarrow> currentPage (navRun es (navInit r n0)) = 1)
   \<and> (page_in_range s \<longrightarrow>
        page_in_range (navEvent Prev s) \<and> page_in_range (navEvent Next s)
        \<and> pageCount (navStep (Repaginate r' n) s) = n
        \<and> currentPage (navStep (Repaginate r' n) s)
            = (if n = 0 then 1 else if int n < currentPage s then int n else currentPage s))"
proof -
  have "page_in_range (navRun es (navInit r n0))"
    using navRun_in_range [OF navInit_in_range] .
  then have a: "0 < pageCount (navRun es (navInit r n0)) \<longrightarrow>
      1 \<le> currentPage (navRun es (navInit r n0))
      \<and> currentPage (navRun es (navInit r n0)) \<le> int (pageCount (navRun es (navInit r n0)))"
    and b: "pageCount (navRun es (navInit r n0)) = 0 \<longrightarrow> currentPage (navRun es (navInit r n0)) = 1"
    by (simp_all add: page_in_range_def)
  have c: "page_in_range (navEvent Prev s) \<and> page_in_range (navEvent Next s)
        \<and> pageCount (navStep (Repaginate r' n) s) = n
        \<and> currentPage (navStep (Repaginate r' n) s)
            = (if n = 0 then 1 else if int n < currentPage s then int n else currentPage s)"
    if "page_in_range s"
    using that by (auto simp add: page_in_range_def navStep_def currentPageEffect_def split: if_splits)
  from a b c show ?thesis by blast
qed

theorem C8_currentPage_in_range_witness:
  "navRun [Repaginate True 3, Next, Next, Next, Repaginate True 2, Prev, Repaginate True 0]
      (navInit True 0)
     = \<lparr>currentPage = 1, pageCount = 0, nav_isRandomSizeMode = True\<rparr>
   \<and> currentPage (navRun [Repaginate True 3, Next, Next, Next] (navInit True 0)) = 3
   \<and> 0 < pageCount (navRun [Repaginate True 3, Next, Next, Next] (navInit True 0))
   \<and> 1 \<le> currentPage (navRun [Repaginate True 3, Next, Next, Next] (navInit True 0))
   \<and> currentPage (navRun [Repaginate True 3, Next, Next, Next] (navInit True 0))
       \<le> int (pageCount (navRun [Repaginate True 3, Next, Next, Next] (navInit True 0)))
   \<and> page_in_range \<lparr>currentPage = 3, pageCount = 3, nav_isRandomSizeMode = True\<rparr>
   \<and> currentPage (navStep (Repaginate True 2)
                     \<lparr>currentPage = 3, pageCount = 3, nav_isRandomSizeMode = True\<rparr>) = 2
   \<and> currentPage (navStep (Repaginate True 0)
                     \<lparr>currentPage = 3, pageCount = 3, nav_isRandomSizeMode = True\<rparr>) = 1"
proof -
  let ?es = "[Repaginate True 3, Next, Next, Next]"
  let ?s = "\<lparr>currentPage = 3, pageCount = 3, nav_isRandomSizeMode = True\<rparr>"
  have run: "navRun ?es (navInit True 0) = ?s"
    by (simp add: navRun_def navInit_def navStep_def currentPageEffect_def)
  have full: "navRun [Repaginate True 3, Next, Next, Next, Repaginate True 2, Prev, Repaginate True 0]
      (navInit True 0) = \<lparr>currentPage = 1, pageCount = 0, nav_isRandomSizeMode = True\<rparr>"
    by (simp add: navRun_def navInit_def navStep_def currentPageEffect_def)
  have pc: "0 < pageCount (navRun ?es (navInit True 0))"
    by (simp add: run)
  have ok: "page_in_range ?s"
    by (simp add: page_in_range_def)
  note t = C8_currentPage_in_range [of ?es True 0 ?s True 2]
  note u = C8_currentPage_in_range [of ?es True 0 ?s True 0]
  from t pc have rng: "1 \<le> currentPage (navRun ?es (navInit True 0))
      \<and> currentPage (navRun ?es (navInit True 0)) \<le> int (pageCount (navRun ?es (navInit True 0)))"
    by blast
  from t ok have "currentPage (navStep (Repaginate True 2) ?s)
      = (if (2::nat) = 0 then 1 else if int 2 < currentPage ?s then int 2 else currentPage ?s)"
    by blast
  then have snap: "currentPage (navStep (Repaginate True 2) ?s) = 2" by simp
  from u ok have "currentPage (navStep (Repaginate True 0) ?s)
      = (if (0::nat) = 0 then 1 else if int 0 < currentPage ?s then int 0 else currentPage ?s)"
    by blast
  then have reset: "currentPage (navStep (Repaginate True 0) ?s) = 1" by simp
  have cur: "currentPage (navRun ?es (navInit True 0)) = 3"
    by (simp add: run)
  from full cur pc rng ok snap reset show ?thesis by blast
qed

section \<open>Sheet Renderer: a load failure (C9)\<close>

text \<open>
  C9, as stated, fails. The only image of the sheet does not decode: the direct renderer
  throws the named error, \<^verbatim>\<open>renderPageToCanvas\<close> catches it, and when the DOM snapshot
  succeeds the caller receives a canvas and no error at all; when the snapshot fails too,
  the caller receives the generic memory message, which does not name the image.
\<close>

theorem C9_load_failure_counterexample:
  "renderSheetDirectlyToCanvas broken_browser one_photo_sheet
     = Throws ''Failed to load image: 1700000000001''
   \<and> renderPageToCanvas broken_browser (\<lambda>p. Returns blank_a4) one_photo_sheet = Returns blank_a4
   \<and> renderPageToCanvas broken_browser (\<lambda>p. Throws ''snapshot failed'') one_photo_sheet
       = Throws ''Failed to render page due to memory constraints. Try reducing image count or quality.''"
  by (simp add: renderPageToCanvas_def renderSheetDirectlyToCanvas_def Let_def broken_browser_def
        one_photo_sheet_def positioned_def photo_a_def)

lemma renderSheetDirectlyToCanvas_load_failure:
  assumes "contextAvailable browser"
    and "\<exists>img \<in> set (sp_page props). \<not> decodes browser (dataUrl img)"
    and "set (settleOrder browser (sp_page props)) = set (sp_page props)"
  shows "\<exists>img \<in> set (sp_page props). \<not> decodes browser (dataUrl img)
           \<and> renderSheetDirectlyToCanvas browser props
               = Throws (''Failed to load image: '' @ img_id img)"
proof -
  from assms(2,3) obtain bad
    where f: "find (\<lambda>img. \<not> decodes browser (dataUrl img))
                (settleOrder browser (sp_page props)) = Some bad"
    by (cases "find (\<lambda>img. \<not> decodes browser (dataUrl img))
                 (settleOrder browser (sp_page props))")
       (auto simp add: find_None_iff)
  then have "bad \<in> set (settleOrder browser (sp_page props))"
    and "\<not> decodes browser (dataUrl bad)"
    by (auto simp add: find_Some_iff)
  then have "bad \<in> set (sp_page props)" and "\<not> decodes browser (dataUrl bad)"
    using assms(3) by simp_all
  moreover have "renderSheetDirectlyToCanvas browser props
                   = Throws (''Failed to load image: '' @ img_id bad)"
    using assms(1) f by (simp add: renderSheetDirectlyToCanvas_def Let_def)
  ultimately show ?thesis by blast
qed

text \<open>
  C9, amended. When an image of the page fails to load, the direct renderer (given a 2D
  context) draws nothing and throws \<open>Failed to load image: <id>\<close> for a failing image of
  the page (the one whose error event fires first). \<^verbatim>\<open>renderPageToCanvas\<close> does not pass that error on: it runs the DOM-snapshot
  fallback, returns the fallback's canvas when that succeeds, and otherwise throws the
  generic message about memory constraints.
\<close>

theorem C9_load_failure_falls_back:
  assumes "\<exists>img \<in> set (sp_page props). \<not> decodes browser (dataUrl img)"
    and "set (settleOrder browser (sp_page props)) = set (sp_page props)"
  shows "(contextAvailable browser \<longrightarrow>
            (\<exists>img \<in> set (sp_page props). \<not> decodes browser (dataUrl img)
               \<and> renderSheetDirectlyToCanvas browser props
                   = Throws (''Failed to load image: '' @ img_id img)))
         \<and> (\<forall>c. renderSheetDirectlyToCanvas browser props \<noteq> Returns c)
         \<and> renderPageToCanvas browser fallback props
             = (case fallback props of
                  Returns c \<Rightarrow> Returns c
                | Throws e \<Rightarrow>
                    Throws ''Failed to render page due to memory constraints. Try reducing image count or quality.'')"
proof -
  have a: "contextAvailable browser \<longrightarrow>
            (\<exists>img \<in> set (sp_page props). \<not> decodes browser (dataUrl img)
               \<and> renderSheetDirectlyToCanvas browser props
                   = Throws (''Failed to load image: '' @ img_id img))"
    using renderSheetDirectlyToCanvas_load_failure [OF _ assms] by blast
  have "find (\<lambda>img. \<not> decodes browser (dataUrl img))
          (settleOrder browser (sp_page props)) \<noteq> None"
    using assms by (auto simp add: find_None_iff)
  then obtain bad
    where "find (\<lambda>img. \<not> decodes browser (dataUrl img))
             (settleOrder browser (sp_page props)) = Some bad"
    by blast
  then have "renderSheetDirectlyToCanvas browser props
               = (if \<not> contextAvailable browser then Throws ''Failed to get 2D context from canvas.''
                  else Throws (''Failed to load image: '' @ img_id bad))"
    by (simp add: renderSheetDirectlyToCanvas_def Let_def)
  then obtain e where t: "renderSheetDirectlyToCanvas browser props = Throws e"
    by (cases "contextAvailable browser") simp_all
  then have b: "\<forall>c. renderSheetDirectlyToCanvas browser props \<noteq> Returns c"
    by simp
  have c: "renderPageToCanvas browser fallback props
             = (case fallback props of
                  Returns c \<Rightarrow> Returns c
                | Throws e \<Rightarrow>
                    Throws ''Failed to render page due to memory constraints. Try reducing image count or quality.'')"
    using t by (simp add: renderPageToCanvas_def)
  from a b c show ?thesis by blast
qed

theorem C9_load_failure_falls_back_witness:
  "photo_a \<in> ProcessedImage.truncate ` set (sp_page one_photo_sheet)
   \<and> \<not> decodes broken_browser (dataUrl photo_a)
   \<and> contextAvailable broken_browser
   \<and> set (settleOrder broken_browser (sp_page one_photo_sheet)) = set (sp_page one_photo_sheet)
   \<and> renderSheetDirectlyToCanvas broken_browser one_photo_sheet
       = Throws (''Failed to load image: '' @ img_id photo_a)
   \<and> renderPageToCanvas broken_browser (\<lambda>p. Returns blank_a4) one_photo_sheet = Returns blank_a4"
proof -
  have m: "photo_a \<in> ProcessedImage.truncate ` set (sp_page one_photo_sheet)"
    by (simp add: one_photo_sheet_def positioned_def photo_a_def ProcessedImage.truncate_def)
  have nd: "\<not> decodes broken_browser (dataUrl photo_a)"
    and ctx: "contextAvailable broken_browser"
    by (simp_all add: broken_browser_def)
  have h: "\<exists>img \<in> set (sp_page one_photo_sheet). \<not> decodes broken_browser (dataUrl img)"
    by (simp add: one_photo_sheet_def broken_browser_def)
  have o: "set (settleOrder broken_browser (sp_page one_photo_sheet)) = set (sp_page one_photo_sheet)"
    by (simp add: broken_browser_def)
  note t = C9_load_failure_falls_back [OF h o, of "\<lambda>p. Returns blank_a4"]
  from t ctx obtain img where "img \<in> set (sp_page one_photo_sheet)"
    and r: "renderSheetDirectlyToCanvas broken_browser one_photo_sheet
              = Throws (''Failed to load image: '' @ img_id img)"
    by blast
  then have "img_id img = img_id photo_a"
    by (simp add: one_photo_sheet_def positioned_def)
  with r have r': "renderSheetDirectlyToCanvas broken_browser one_photo_sheet
              = Throws (''Failed to load image: '' @ img_id photo_a)"
    by simp
  from t have p: "renderPageToCanvas broken_browser (\<lambda>p. Returns blank_a4) one_photo_sheet
                    = Returns blank_a4"
    by simp
  from m nd ctx o r' p show ?thesis by blast
qed

section \<open>Sheet Packer, standard mode (C4)\<close>

subsection \<open>The flat list has as many entries as the quantities say\<close>

lemma sum_list_sort_key: "sum_list (map h (sort_key g ks)) = sum_list (map (h :: 'a \<Rightarrow> nat) ks)"
proof -
  have "sum_mset (image_mset h (mset (sort_key g ks))) = sum_mset (image_mset h (mset ks))"
    by simp
  then show ?thesis
    by (metis mset_map sum_mset_sum_list)
qed

lemma length_expandId:
  assumes "k \<in> img_id ` set images"
  shows "length (expandId q images k) = nat (quantityOf q k)"
proof -
  from assms have "find (\<lambda>img. img_id img = k) images \<noteq> None"
    by (auto simp add: find_None_iff)
  then show ?thesis
    by (auto simp add: expandId_def)
qed

lemma quantityOf_entry:
  assumes "distinct (map fst q)" and "p \<in> set q"
  shows "quantityOf q (fst p) = snd p"
proof -
  from assms have "map_of q (fst p) = Some (snd p)" by simp
  then show ?thesis by (simp add: quantityOf_def)
qed

lemma sum_nat_nonneg:
  "\<forall>p \<in> set q. 0 \<le> snd p \<Longrightarrow>
   int (sum_list (map (\<lambda>p. nat (snd p)) q)) = sum_list (map snd (q :: (string \<times> int) list))"
  by (induction q) auto

lemma length_imagesToPrint:
  assumes "distinct (map fst q)" and "fst ` set q \<subseteq> img_id ` set images"
    and "\<forall>p \<in> set q. 0 \<le> snd p"
  shows "int (length (imagesToPrint q images False)) = totalCount q"
proof -
  have "length (imagesToPrint q images False)
          = sum_list (map (\<lambda>k. length (expandId q images k))
                        (sort_key (\<lambda>a. findIndex a images) (map fst q)))"
    by (simp add: imagesToPrint_def length_concat comp_def)
  also have "\<dots> = sum_list (map (\<lambda>k. length (expandId q images k)) (map fst q))"
    by (rule sum_list_sort_key)
  also have "\<dots> = sum_list (map (\<lambda>p. nat (snd p)) q)"
  proof -
    have "length (expandId q images (fst p)) = nat (snd p)" if "p \<in> set q" for p
      using that assms(2) quantityOf_entry [OF assms(1) that]
      by (simp add: length_expandId image_subset_iff)
    then show ?thesis
      by (simp add: comp_def cong: map_cong)
  qed
  finally show ?thesis
    using sum_nat_nonneg [OF assms(3)] by (simp add: totalCount_sum_list)
qed

subsection \<open>The single page\<close>




section \<open>Quantities against the sheet as laid out (C5)\<close>

text \<open>
  C5 at the failing input, the state of the component after mounting with two 35 x 45 mm
  photos on A4 with 10 mm margins, the 2 mm gap, no cut marks, and \<^verbatim>\<open>rotatePhotos\<close>
  false (its initial value). The capacity that the effect distributes and the clamping
  handler enforces is \<^verbatim>\<open>layoutInfo.max\<close>, the larger of the two photo orientations: 28,
  reached with the photos rotated (4 x 7), against 25 as they are laid out (5 x 5). The
  quantities are 14 and 14, the clamp accepts them, the flat list has 28 entries, and the
  packer places 25 on the sheet: three requested photos are on no page. With the photos
  rotated, as \<^verbatim>\<open>handleFillPage\<close> sets them, all 28 are placed.
\<close>

theorem C5_quantities_exceed_sheet:
  "cfg_images two_photos_a4 = [photo_a, photo_b]
   \<and> passportSize_of [photo_a, photo_b] = Some india_passport
   \<and> \<not> isRandomSizeMode_of [photo_a, photo_b]
   \<and> calculateLayoutInfo_f64 210 297 (Some india_passport) margins10 False False
       = \<lparr>portrait = 25, landscape = 28, max_info = 28, rotateForMax = True\<rparr>
   \<and> maxPhotos_of two_photos_a4 = 28
   \<and> qinit two_photos_a4 = (two_photos_a4, [(img_id photo_a, 14), (img_id photo_b, 14)])
   \<and> quantitiesEffect False [photo_a, photo_b] 28 []
       = [(img_id photo_a, 14), (img_id photo_b, 14)]
   \<and> handleQuantityChange False 28 [(img_id photo_a, 14), (img_id photo_b, 14)]
        (img_id photo_a) 14 = [(img_id photo_a, 14), (img_id photo_b, 14)]
   \<and> totalCount [(img_id photo_a, 14), (img_id photo_b, 14)] = 28
   \<and> length (imagesToPrint [(img_id photo_a, 14), (img_id photo_b, 14)] [photo_a, photo_b]
               False) = 28
   \<and> itemsPerPage_f64 (pack_printableWidthPx_f64 a4_paper margins10)
        (pack_printableHeightPx_f64 a4_paper margins10) False india_passport False False = 25
   \<and> map_sum id (map length)
        (paginatedLayout_standard_f64
           (imagesToPrint [(img_id photo_a, 14), (img_id photo_b, 14)] [photo_a, photo_b] False)
           a4_paper margins10 False False False (Some india_passport)) = Inr [25]
   \<and> map_sum id (map length)
        (paginatedLayout_standard_f64
           (imagesToPrint [(img_id photo_a, 14), (img_id photo_b, 14)] [photo_a, photo_b] False)
           a4_paper margins10 False False True (Some india_passport)) = Inr [28]"
proof -
  let ?q = "[(img_id photo_a, 14), (img_id photo_b, 14)]"
  let ?flat = "imagesToPrint ?q [photo_a, photo_b] False"
  have a: "cfg_images two_photos_a4 = [photo_a, photo_b]"
    by (simp add: two_photos_a4_def)
  have b: "passportSize_of [photo_a, photo_b] = Some india_passport"
    by (simp add: passportSize_of_def photo_a_def)
  have c: "\<not> isRandomSizeMode_of [photo_a, photo_b]"
    using standard_two_photos_a4 by (simp add: a)
  have e: "quantitiesEffect False [photo_a, photo_b] 28 [] = ?q"
    by (simp add: quantitiesEffect_def js_rem_def photo_a_def photo_b_def)
  have f: "handleQuantityChange False 28 ?q (img_id photo_a) 14 = ?q"
    by (simp add: handleQuantityChange_def Let_def photo_a_def photo_b_def)
  have g: "totalCount ?q = 28"
    by (simp add: totalCount_def)
  have "int (length ?flat) = totalCount ?q"
    by (rule length_imagesToPrint) (simp_all add: photo_a_def photo_b_def)
  with g have h: "length ?flat = 28" by simp
  have i: "itemsPerPage_f64 (pack_printableWidthPx_f64 a4_paper margins10)
        (pack_printableHeightPx_f64 a4_paper margins10) False india_passport False False = 25"
    by (simp add: itemsPerPage_f64_def a4_printable_f64 a4_pack_grid_f64 count_mul_f64_small)
  have nc: "5 = cols_f64 (pack_printableWidthPx_f64 a4_paper margins10) False india_passport
                  False False"
    and nr: "5 = rows_f64 (pack_printableHeightPx_f64 a4_paper margins10) False india_passport
                   False False"
    and nc': "4 = cols_f64 (pack_printableWidthPx_f64 a4_paper margins10) True india_passport
                  False False"
    and nr': "7 = rows_f64 (pack_printableHeightPx_f64 a4_paper margins10) True india_passport
                   False False"
    by (simp_all add: a4_printable_f64 a4_pack_grid_f64)
  have s: "(5::int) * 5 < 2 ^ 53" and s': "(4::int) * 7 < 2 ^ 53" by simp_all
  from paginatedLayout_standard_f64_pages [OF a4_printable_f64_pos nc nr s, of ?flat]
  obtain pgs
    where r: "paginatedLayout_standard_f64 ?flat a4_paper margins10 False False False
                (Some india_passport) = Inr pgs"
      and n: "length (concat pgs) = min (length ?flat) (nat (5 * 5))"
      and one: "0 < min (length ?flat) (nat (5 * 5)) \<longrightarrow> length pgs = 1"
    apply -
    apply (erule exE)
    apply (erule conjE)+
    apply (rule that)
      apply assumption+
    done
  from n h have n25: "length (concat pgs) = 25" by simp
  from one h have one25: "length pgs = 1" by simp
  have j: "map_sum id (map length)
        (paginatedLayout_standard_f64 ?flat a4_paper margins10 False False False
           (Some india_passport)) = Inr [25]"
    using r one25 n25 by (rule page_lengths)
  from paginatedLayout_standard_f64_pages [OF a4_printable_f64_pos nc' nr' s', of ?flat]
  obtain pgs'
    where r': "paginatedLayout_standard_f64 ?flat a4_paper margins10 False False True
                (Some india_passport) = Inr pgs'"
      and n': "length (concat pgs') = min (length ?flat) (nat (4 * 7))"
      and one': "0 < min (length ?flat) (nat (4 * 7)) \<longrightarrow> length pgs' = 1"
    apply -
    apply (erule exE)
    apply (erule conjE)+
    apply (rule that)
      apply assumption+
    done
  from n' h have n28: "length (concat pgs') = 28" by simp
  from one' h have one28: "length pgs' = 1" by simp
  have k: "map_sum id (map length)
        (paginatedLayout_standard_f64 ?flat a4_paper margins10 False False True
           (Some india_passport)) = Inr [28]"
    using r' one28 n28 by (rule page_lengths)
  from a b c a4_layoutInfo_f64 maxPhotos_two_photos_a4 qinit_two_photos_a4 e f g h i j k
  show ?thesis by blast
qed

section \<open>Sheet Packer, random mode (C6)\<close>













end
